theory Spec2Isabelle
  imports Main
begin

section \<open>Python and pandas values\<close>

text \<open>
  The cells of a pandas table, the fields of an event descriptor and the values that
  \<open>generate_prediction\<close> passes through unchanged are dynamically typed. The model has the
  scalar values the code can tell apart: \<open>None\<close>, the float \<open>nan\<close>, strings, integers and
  the other floats. The code looks at a float other than \<open>nan\<close> in three ways only, and
  the model records the float by what they give: \<open>int(x)\<close>, which truncates towards zero
  and has no value for an infinity; \<open>str(x)\<close>; and the truth value \<open>bool(x)\<close>. The
  position \<open>3.0\<close> of a results table is the float with \<open>int\<close> 3, text \<open>3.0\<close> and truth
  value true.
  A Python string is a list of code points; the model has the code points below 256,
  one \<open>char\<close> each, which covers every key of the circuit table.
\<close>

record pyfloat =
  float_int :: "int option"
  float_str :: string
  float_bool :: bool

datatype pyval = PyNone | NaN | PyStr string | PyInt int | PyFloat pyfloat

datatype pyexc =
  KeyError string | ValueError | TypeError | AttributeError | IndexError | OverflowError

text \<open>Truth value of an object, as \<open>if x:\<close> tests it. The float \<open>nan\<close> is true.\<close>

fun truthy :: "pyval \<Rightarrow> bool" where
  "truthy PyNone = False"
| "truthy NaN = True"
| "truthy (PyStr s) = (s \<noteq> [])"
| "truthy (PyInt i) = (i \<noteq> 0)"
| "truthy (PyFloat x) = float_bool x"

text \<open>\<open>pd.isna\<close> on a scalar.\<close>

fun isna :: "pyval \<Rightarrow> bool" where
  "isna PyNone = True"
| "isna NaN = True"
| "isna (PyStr s) = False"
| "isna (PyInt i) = False"
| "isna (PyFloat x) = False"

subsection \<open>Decimal text of an integer, and \<open>str()\<close>\<close>

definition digit_char :: "nat \<Rightarrow> char" where
  "digit_char d = char_of (48 + d)"

fun nat_digits :: "nat \<Rightarrow> string" where
  "nat_digits n = (if n < 10 then [digit_char n] else nat_digits (n div 10) @ [digit_char (n mod 10)])"

declare nat_digits.simps [simp del]

definition int_str :: "int \<Rightarrow> string" where
  "int_str i = (if i < 0 then CHR ''-'' # nat_digits (nat (- i)) else nat_digits (nat i))"

text \<open>
  Conversions between integers and decimal text refuse more than 4300 digits, in both
  directions, with \<open>ValueError\<close>.
\<close>

definition max_str_digits :: nat where
  "max_str_digits = 4300"

text \<open>\<open>str(x)\<close>, which is also what an f-string field \<open>{x}\<close> renders.\<close>

fun py_str :: "pyval \<Rightarrow> pyexc + string" where
  "py_str PyNone = Inr ''None''"
| "py_str NaN = Inr ''nan''"
| "py_str (PyStr s) = Inr s"
| "py_str (PyInt i) =
     (if max_str_digits < length (nat_digits (nat \<bar>i\<bar>)) then Inl ValueError else Inr (int_str i))"
| "py_str (PyFloat x) = Inr (float_str x)"

subsection \<open>\<open>int()\<close>\<close>

text \<open>
  The blanks that \<open>int()\<close> skips around a literal: tab to carriage return, space, and the
  two blanks above 127 (next line, no-break space). The separators \<open>0x1C\<close> to \<open>0x1F\<close> are
  not among them.
\<close>

definition is_space :: "char \<Rightarrow> bool" where
  "is_space c = (let n = (of_char c :: nat) in
     (9 \<le> n \<and> n \<le> 13) \<or> n = 32 \<or> n = 133 \<or> n = 160)"

definition is_digit :: "char \<Rightarrow> bool" where
  "is_digit c = (let n = (of_char c :: nat) in 48 \<le> n \<and> n \<le> 57)"

definition strip :: "string \<Rightarrow> string" where
  "strip s = rev (dropWhile is_space (rev (dropWhile is_space s)))"

text \<open>
  Digits of a decimal literal: at least one digit, single underscores allowed between
  digits only. The flag says whether the previous character was a digit.
\<close>

fun parse_digits :: "nat \<Rightarrow> bool \<Rightarrow> string \<Rightarrow> nat option" where
  "parse_digits acc prev [] = (if prev then Some acc else None)"
| "parse_digits acc prev (c # cs) =
     (if is_digit c then parse_digits (10 * acc + (of_char c - 48)) True cs
      else if c = CHR ''_'' \<and> prev then parse_digits acc False cs
      else None)"

text \<open>
  The literal after its sign: refused when it has more digits than the limit (leading
  zeros count, underscores do not), parsed otherwise.
\<close>

definition parse_literal :: "string \<Rightarrow> nat option" where
  "parse_literal body =
     (if max_str_digits < length (filter is_digit body) then None
      else parse_digits 0 False body)"

definition int_of_str :: "string \<Rightarrow> int option" where
  "int_of_str s =
     (case strip s of
        [] \<Rightarrow> None
      | c # cs \<Rightarrow>
          if c = CHR ''-'' then map_option (\<lambda>n. - int n) (parse_literal cs)
          else if c = CHR ''+'' then map_option int (parse_literal cs)
          else map_option int (parse_literal (c # cs)))"

fun py_int :: "pyval \<Rightarrow> pyexc + int" where
  "py_int PyNone = Inl TypeError"
| "py_int NaN = Inl ValueError"
| "py_int (PyStr s) = (case int_of_str s of None \<Rightarrow> Inl ValueError | Some i \<Rightarrow> Inr i)"
| "py_int (PyInt i) = Inr i"
| "py_int (PyFloat x) = (case float_int x of None \<Rightarrow> Inl OverflowError | Some i \<Rightarrow> Inr i)"

subsection \<open>Strings: \<open>lower()\<close> and the \<open>in\<close> operator\<close>

definition lower_char :: "char \<Rightarrow> char" where
  "lower_char c = (let n = (of_char c :: nat) in
     if (65 \<le> n \<and> n \<le> 90) \<or> (192 \<le> n \<and> n \<le> 222 \<and> n \<noteq> 215) then char_of (n + 32) else c)"

definition str_lower :: "string \<Rightarrow> string" where
  "str_lower s = map lower_char s"

fun startswith :: "string \<Rightarrow> string \<Rightarrow> bool" where
  "startswith s [] = True"
| "startswith [] (p # ps) = False"
| "startswith (c # cs) (p # ps) = (c = p \<and> startswith cs ps)"

text \<open>\<open>str_contains sub s\<close> is Python's \<open>sub in s\<close>.\<close>

fun str_contains :: "string \<Rightarrow> string \<Rightarrow> bool" where
  "str_contains sub [] = (sub = [])"
| "str_contains sub (c # cs) = (startswith (c # cs) sub \<or> str_contains sub cs)"

section \<open>Tables\<close>

text \<open>
  A DataFrame has column labels and rows of cells. \<open>iterrows\<close> yields each row as a
  Series indexed by the column labels: \<open>k in row\<close> asks whether \<open>k\<close> is a column label,
  \<open>row[k]\<close> raises \<open>KeyError\<close> when it is not, \<open>row.get(k, d)\<close> gives \<open>d\<close> then.
  Column labels are taken to be distinct.
\<close>

record dataframe =
  columns :: "string list"
  rows :: "pyval list list"

type_synonym series = "string \<rightharpoonup> pyval"

definition df_empty :: "dataframe \<Rightarrow> bool" where
  "df_empty df = (columns df = [] \<or> rows df = [])"

definition iterrows :: "dataframe \<Rightarrow> series list" where
  "iterrows df = map (\<lambda>r. map_of (zip (columns df) r)) (rows df)"

definition getitem :: "series \<Rightarrow> string \<Rightarrow> pyexc + pyval" where
  "getitem s k = (case s k of None \<Rightarrow> Inl (KeyError k) | Some v \<Rightarrow> Inr v)"

section \<open>The random source\<close>

text \<open>
  The process-wide generator is an unbounded supply of raw draws. \<open>randbelow\<close> consumes
  one draw and reduces it below the bound. \<open>random.choice\<close> indexes the sequence with one
  draw; \<open>random.sample\<close> selects without replacement from a copy of the population,
  moving the last unselected item into the vacancy after each pick (the library's
  procedure for small populations; for large ones it draws places until it finds a fresh
  one, with the same possible results). It raises \<open>ValueError\<close> when asked for more items
  than the population has, and \<open>random.choice\<close> raises \<open>IndexError\<close> on an empty sequence.
\<close>

type_synonym rng = "nat \<Rightarrow> nat"

definition randbelow :: "rng \<Rightarrow> nat \<Rightarrow> nat \<times> rng" where
  "randbelow g n = (g 0 mod n, \<lambda>i. g (Suc i))"

definition random_choice :: "rng \<Rightarrow> 'a list \<Rightarrow> pyexc + ('a \<times> rng)" where
  "random_choice g xs =
     (if xs = [] then Inl IndexError
      else (case randbelow g (length xs) of (j, g') \<Rightarrow> Inr (xs ! j, g')))"

fun sample_loop :: "rng \<Rightarrow> 'a list \<Rightarrow> nat \<Rightarrow> 'a list \<times> rng" where
  "sample_loop g pool 0 = ([], g)"
| "sample_loop g pool (Suc k) =
     (case randbelow g (length pool) of (j, g1) \<Rightarrow>
        (case sample_loop g1 (butlast (pool[j := last pool])) k of (rest, g2) \<Rightarrow>
           (pool ! j # rest, g2)))"

definition random_sample :: "rng \<Rightarrow> 'a list \<Rightarrow> nat \<Rightarrow> pyexc + ('a list \<times> rng)" where
  "random_sample g population k =
     (if length population < k then Inl ValueError else Inr (sample_loop g population k))"

section \<open>The prediction engine\<close>

subsection \<open>Circuit flavour text\<close>

text \<open>The table in its insertion order, which is the order the engine scans it in.\<close>

definition CIRCUIT_TIDBITS :: "(string \<times> string) list" where
  "CIRCUIT_TIDBITS =
   [(''Bahrain'', ''Known for its abrasive surface, tire degradation is always a key factor.''),
    (''Jeddah'', ''A high-speed street circuit. Expect close walls and high drama.''),
    (''Melbourne'', ''A fan favorite to start the season. It's a tricky, bumpy track.''),
    (''Imola'', ''An old-school, unforgiving track. Mistakes are punished harshly.''),
    (''Miami'', ''A modern track with a mix of high-speed straights and technical sections.''),
    (''Monaco'', ''The crown jewel. Overtaking is nearly impossible, so qualifying is everything.''),
    (''Baku'', ''Chaos is the name of the game here with its long straight and tight castle section.''),
    (''Montr'' @ [CHR 0xE9] @ ''al'', ''The 'Wall of Champions' awaits. A track that rewards aggressive driving.''),
    (''Catalunya'', ''A circuit teams know inside-out. Car performance is truly tested here.''),
    (''Spielberg'', ''A short, fast lap with big elevation changes. Expect close racing.''),
    (''Silverstone'', ''The historic home of F1. High-speed corners like Maggots and Becketts are legendary.''),
    (''Budapest'', ''Often called 'Monaco without the walls'. It's tight, twisty, and hot.''),
    (''Spa-Francorchamps'', ''A true driver's circuit. Eau Rouge and Raidillon are iconic.''),
    (''Zandvoort'', ''A banked, flowing circuit that is a huge challenge for drivers.''),
    (''Monza'', ''The 'Temple of Speed'. It's all about low drag and high straight-line speed.''),
    (''Singapore'', ''A grueling, humid night race on a bumpy street circuit.''),
    (''Suzuka'', ''A legendary figure-eight track loved by all drivers.''),
    (''Austin'', ''A modern classic with a bit of everything, from fast sweeps to heavy braking.''),
    (''Mexico City'', ''The high altitude saps engine power and tests cooling systems to their limit.''),
    (''S'' @ [CHR 0xE3] @ ''o Paulo'', ''Famous for its unpredictable weather and passionate fans. Always exciting.''),
    (''Las Vegas'', ''A spectacular night race down the famous Strip. It's all about the show.''),
    (''Lusail'', ''A fast, flowing track originally built for MotoGP, making it tough on drivers' necks.''),
    (''Abu Dhabi'', ''The season finale. A modern circuit that often hosts title deciders under the lights.'')]"

definition default_tidbit :: string where
  "default_tidbit = ''A circuit that always brings excitement!''"

text \<open>The scan \<open>for key in CIRCUIT_TIDBITS: if key.lower() in event_name.lower(): ...; break\<close>.\<close>

fun tidbit_loop :: "(string \<times> string) list \<Rightarrow> string \<Rightarrow> string \<Rightarrow> string" where
  "tidbit_loop [] event_name tidbit = tidbit"
| "tidbit_loop ((key, text) # rest) event_name tidbit =
     (if str_contains (str_lower key) (str_lower event_name) then text
      else tidbit_loop rest event_name tidbit)"

subsection \<open>Candidate drivers\<close>

record driver =
  name :: pyval
  position :: int
  constructor :: pyval

text \<open>The name of a row, by the columns the row has.\<close>

definition driver_name :: "series \<Rightarrow> pyexc + pyval" where
  "driver_name s =
     (case (s ''GivenName'', s ''FamilyName'') of
        (Some given, Some family) \<Rightarrow>
          (case py_str given of
             Inl e \<Rightarrow> Inl e
           | Inr g \<Rightarrow>
             (case py_str family of
                Inl e \<Rightarrow> Inl e
              | Inr f \<Rightarrow> Inr (PyStr (g @ '' '' @ f))))
      | _ \<Rightarrow>
        (case s ''Driver'' of
           Some d \<Rightarrow> Inr d
         | None \<Rightarrow>
           (case py_str (case s ''Abbreviation'' of None \<Rightarrow> PyStr ''Unknown'' | Some a \<Rightarrow> a) of
              Inl e \<Rightarrow> Inl e
            | Inr a \<Rightarrow> Inr (PyStr a))))"

text \<open>
  One pass of the loop body: \<open>None\<close> is \<open>continue\<close>. The name is derived before the
  dictionary display, which evaluates its entries left to right, so \<open>int(...)\<close> runs
  before \<open>driver['TeamName']\<close>.
\<close>

definition row_driver :: "series \<Rightarrow> pyexc + driver option" where
  "row_driver s =
     (case getitem s ''Position'' of
        Inl e \<Rightarrow> Inl e
      | Inr p \<Rightarrow>
        if isna p then Inr None
        else
          (case driver_name s of
             Inl e \<Rightarrow> Inl e
           | Inr nm \<Rightarrow>
             (case py_int p of
                Inl e \<Rightarrow> Inl e
              | Inr i \<Rightarrow>
                (case getitem s ''TeamName'' of
                   Inl e \<Rightarrow> Inl e
                 | Inr team \<Rightarrow> Inr (Some \<lparr>name = nm, position = i, constructor = team\<rparr>)))))"

fun drivers_loop :: "driver list \<Rightarrow> series list \<Rightarrow> pyexc + driver list" where
  "drivers_loop drivers [] = Inr drivers"
| "drivers_loop drivers (s # ss) =
     (case row_driver s of
        Inl e \<Rightarrow> Inl e
      | Inr None \<Rightarrow> drivers_loop drivers ss
      | Inr (Some d) \<Rightarrow> drivers_loop (drivers @ [d]) ss)"

text \<open>What one row adds to the candidate list when it does not raise.\<close>

definition kept :: "series \<Rightarrow> driver list" where
  "kept s = (case row_driver s of Inr (Some d) \<Rightarrow> [d] | _ \<Rightarrow> [])"

subsection \<open>Pools and random picks\<close>

text \<open>The local variables of \<open>generate_prediction\<close> after the selections.\<close>

record selection =
  top_contenders :: "driver list"
  podium_favorites :: "driver list"
  midfield_strong :: "driver list"
  dark_horse :: "driver option"
  midfield_pack :: "driver list"
  potential_surprise :: "driver option"

text \<open>\<open>random.choice(pool) if pool else None\<close>.\<close>

definition choice_or_none :: "rng \<Rightarrow> driver list \<Rightarrow> pyexc + (driver option \<times> rng)" where
  "choice_or_none g pool =
     (if pool \<noteq> [] then
        (case random_choice g pool of Inl e \<Rightarrow> Inl e | Inr (d, g') \<Rightarrow> Inr (Some d, g'))
      else Inr (None, g))"

definition select_drivers :: "rng \<Rightarrow> driver list \<Rightarrow> pyexc + selection" where
  "select_drivers g drivers =
     (let top_pool = filter (\<lambda>d. position d \<le> 5) drivers;
          num_to_sample = min 3 (length top_pool)
      in (case random_sample g top_pool num_to_sample of
            Inl e \<Rightarrow> Inl e
          | Inr (podium, g1) \<Rightarrow>
            (let strong = filter (\<lambda>d. 4 \<le> position d \<and> position d \<le> 8) drivers
             in (case choice_or_none g1 strong of
                   Inl e \<Rightarrow> Inl e
                 | Inr (dh, g2) \<Rightarrow>
                   (let pack = filter (\<lambda>d. 9 \<le> position d \<and> position d \<le> 15) drivers
                    in (case choice_or_none g2 pack of
                          Inl e \<Rightarrow> Inl e
                        | Inr (ps, g3) \<Rightarrow>
                          Inr \<lparr>top_contenders = top_pool, podium_favorites = podium,
                               midfield_strong = strong, dark_horse = dh,
                               midfield_pack = pack, potential_surprise = ps\<rparr>))))))"

subsection \<open>The event descriptor\<close>

text \<open>
  The descriptor is absent, a dict (read with \<open>.get\<close>) or any other object (read with
  \<open>getattr(..., None)\<close>). The result of the block is the tidbit, the event name and the
  location; \<open>event_name.lower()\<close> raises \<open>AttributeError\<close> on a true value that is not a string.
\<close>

datatype event_info = NoEvent | EventDict "string \<rightharpoonup> pyval" | EventObject "string \<rightharpoonup> pyval"

definition or_none :: "pyval option \<Rightarrow> pyval" where
  "or_none v = (case v of None \<Rightarrow> PyNone | Some x \<Rightarrow> x)"

fun event_field :: "event_info \<Rightarrow> string \<Rightarrow> pyval" where
  "event_field NoEvent k = PyNone"
| "event_field (EventDict d) k = or_none (d k)"
| "event_field (EventObject attrs) k = or_none (attrs k)"

definition event_tidbit :: "pyval \<Rightarrow> pyexc + string" where
  "event_tidbit event_name =
     (if truthy event_name then
        (case event_name of
           PyStr s \<Rightarrow> Inr (tidbit_loop CIRCUIT_TIDBITS s default_tidbit)
         | _ \<Rightarrow> Inl AttributeError)
      else Inr default_tidbit)"

definition resolve_event :: "event_info \<Rightarrow> pyexc + (string \<times> pyval \<times> pyval)" where
  "resolve_event ev =
     (case ev of
        NoEvent \<Rightarrow> Inr (default_tidbit, PyNone, PyNone)
      | _ \<Rightarrow>
        (let event_name = event_field ev ''EventName'';
             event_location = event_field ev ''Location''
         in (case event_tidbit event_name of
               Inl e \<Rightarrow> Inl e
             | Inr tidbit \<Rightarrow> Inr (tidbit, event_name, event_location))))"

subsection \<open>\<open>generate_prediction\<close>\<close>

text \<open>
  The returned dict, as its items in insertion order. Its values are scalars, a driver
  dict or a list of driver dicts.
\<close>

datatype pyobj = Scalar pyval | DriverDict driver | DriverDicts "driver list"

type_synonym pydict = "(string \<times> pyobj) list"

definition error_record :: pydict where
  "error_record = [(''error'', Scalar (PyStr ''Cannot generate prediction without driver standings.''))]"

definition driver_or_none :: "driver option \<Rightarrow> pyobj" where
  "driver_or_none d = (case d of None \<Rightarrow> Scalar PyNone | Some x \<Rightarrow> DriverDict x)"

definition prediction_record :: "selection \<Rightarrow> string \<Rightarrow> pyval \<Rightarrow> pyval \<Rightarrow> pydict" where
  "prediction_record sel tidbit event_name event_location =
     [(''event_name'', Scalar (if truthy event_name then event_name else PyStr ''Unknown Event'')),
      (''location'', Scalar (if truthy event_location then event_location else PyStr ''Unknown Location'')),
      (''tidbit'', Scalar (PyStr tidbit)),
      (''podium_favorites'', DriverDicts (podium_favorites sel)),
      (''dark_horse'', driver_or_none (dark_horse sel)),
      (''potential_surprise'', driver_or_none (potential_surprise sel))]"

text \<open>The locals up to line 147: the candidate list, then the pools and picks.\<close>

definition prediction_locals :: "rng \<Rightarrow> dataframe \<Rightarrow> pyexc + selection" where
  "prediction_locals g df =
     (case drivers_loop [] (iterrows df) of
        Inl e \<Rightarrow> Inl e
      | Inr drivers \<Rightarrow> select_drivers g drivers)"

definition generate_prediction :: "rng \<Rightarrow> dataframe option \<Rightarrow> event_info \<Rightarrow> pyexc + pydict" where
  "generate_prediction g standings_df ev =
     (case standings_df of
        None \<Rightarrow> Inr error_record
      | Some df \<Rightarrow>
        if df_empty df then Inr error_record
        else
          (case prediction_locals g df of
             Inl e \<Rightarrow> Inl e
           | Inr sel \<Rightarrow>
             (case resolve_event ev of
                Inl e \<Rightarrow> Inl e
              | Inr (tidbit, event_name, event_location) \<Rightarrow>
                Inr (prediction_record sel tidbit event_name event_location))))"

text \<open>The display layer's test \<open>if prediction.get("error"):\<close>.\<close>

fun obj_truthy :: "pyobj \<Rightarrow> bool" where
  "obj_truthy (Scalar v) = truthy v"
| "obj_truthy (DriverDict d) = True"
| "obj_truthy (DriverDicts ds) = (ds \<noteq> [])"

definition dict_get :: "pydict \<Rightarrow> string \<Rightarrow> pyobj" where
  "dict_get d k = (case map_of d k of None \<Rightarrow> Scalar PyNone | Some v \<Rightarrow> v)"

definition shows_error :: "pydict \<Rightarrow> bool" where
  "shows_error prediction = obj_truthy (dict_get prediction ''error'')"

section \<open>The schedule lookup\<close>

text \<open>
  \<open>get_next_gp\<close> reads the clock and calls the data provider. The model takes what they
  give as arguments: the outcome of fetching the schedule and converting its dates (the
  text of the exception, or the rows in the provider's order), the provider's lookup of
  an event by name (which may raise, find nothing, or give an event), and the current
  time. A date is a count of time units; \<open>None\<close> is \<open>NaT\<close>, which compares false.
\<close>

record event =
  EventName :: string
  Location :: string
  EventDate :: "int option"

definition on_or_after :: "int option \<Rightarrow> int \<Rightarrow> bool" where
  "on_or_after d now = (case d of None \<Rightarrow> False | Some t \<Rightarrow> now \<le> t)"

definition network_error :: "string \<Rightarrow> string" where
  "network_error e = ''Network error getting race schedule: '' @ e"

definition no_upcoming :: string where
  "no_upcoming = ''No upcoming races found for the rest of the season.''"

definition not_found :: "string \<Rightarrow> string" where
  "not_found q = ''Could not find a future Grand Prix matching '' @ [CHR 0x27] @ q @ [CHR 0x27] @ ''.''"

definition get_next_gp ::
  "string + event list \<Rightarrow> (event list \<Rightarrow> string \<Rightarrow> string + event option) \<Rightarrow> int \<Rightarrow>
   string option \<Rightarrow> event option \<times> string option" where
  "get_next_gp schedule_result get_event_by_name now gp_name_query =
     (case schedule_result of
        Inl e \<Rightarrow> (None, Some (network_error e))
      | Inr schedule \<Rightarrow>
        (case filter (\<lambda>ev. on_or_after (EventDate ev) now) schedule of
           [] \<Rightarrow> (None, Some no_upcoming)
         | first_future # others \<Rightarrow>
           (case gp_name_query of
              None \<Rightarrow> (Some first_future, None)
            | Some q \<Rightarrow>
              if q = [] then (Some first_future, None)
              else
                (case get_event_by_name schedule q of
                   Inl e \<Rightarrow> (None, Some (network_error e))
                 | Inr None \<Rightarrow> (None, Some (not_found q))
                 | Inr (Some ev) \<Rightarrow>
                   if on_or_after (EventDate ev) now then (Some ev, None)
                   else (None, Some (not_found q))))))"

section \<open>Readings of the specification\<close>

text \<open>
  The specification's name rule, read by its words: a field counts when it is populated,
  that is present in the row with a value that is not missing.
\<close>

definition populated :: "series \<Rightarrow> string \<Rightarrow> bool" where
  "populated s k = (case s k of None \<Rightarrow> False | Some v \<Rightarrow> \<not> isna v)"

definition spec_driver_name :: "series \<Rightarrow> pyexc + pyval" where
  "spec_driver_name s =
     (if populated s ''GivenName'' \<and> populated s ''FamilyName'' then
        (case py_str (or_none (s ''GivenName'')) of
           Inl e \<Rightarrow> Inl e
         | Inr g \<Rightarrow>
           (case py_str (or_none (s ''FamilyName'')) of
              Inl e \<Rightarrow> Inl e
            | Inr f \<Rightarrow> Inr (PyStr (g @ '' '' @ f))))
      else if populated s ''Driver'' then Inr (or_none (s ''Driver''))
      else if populated s ''Abbreviation'' then
        (case py_str (or_none (s ''Abbreviation'')) of
           Inl e \<Rightarrow> Inl e
         | Inr a \<Rightarrow> Inr (PyStr a))
      else Inr (PyStr ''Unknown''))"



text \<open>A field of the event descriptor is absent: no descriptor, no key, no attribute.\<close>

fun field_absent :: "event_info \<Rightarrow> string \<Rightarrow> bool" where
  "field_absent NoEvent k = True"
| "field_absent (EventDict d) k = (d k = None)"
| "field_absent (EventObject attrs) k = (attrs k = None)"

section \<open>Sample inputs\<close>

definition sample_rng :: rng where
  "sample_rng = (\<lambda>i. i)"

definition sample_standings :: dataframe where
  "sample_standings =
     \<lparr>columns = [''Position'', ''Abbreviation'', ''TeamName''],
      rows = [[PyInt 1, PyStr ''VER'', PyStr ''Red Bull Racing''],
              [PyInt 2, PyStr ''NOR'', PyStr ''McLaren''],
              [NaN, PyStr ''STR'', PyStr ''Aston Martin''],
              [PyInt 3, PyStr ''LEC'', PyStr ''Ferrari''],
              [PyInt 4, PyStr ''PIA'', PyStr ''McLaren''],
              [PyInt 6, PyStr ''HAM'', PyStr ''Ferrari''],
              [PyInt 9, PyStr ''ALO'', PyStr ''Aston Martin'']]\<rparr>"

definition sample_drivers :: "driver list" where
  "sample_drivers =
     [\<lparr>name = PyStr ''VER'', position = 1, constructor = PyStr ''Red Bull Racing''\<rparr>,
      \<lparr>name = PyStr ''NOR'', position = 2, constructor = PyStr ''McLaren''\<rparr>,
      \<lparr>name = PyStr ''LEC'', position = 3, constructor = PyStr ''Ferrari''\<rparr>,
      \<lparr>name = PyStr ''PIA'', position = 4, constructor = PyStr ''McLaren''\<rparr>,
      \<lparr>name = PyStr ''HAM'', position = 6, constructor = PyStr ''Ferrari''\<rparr>,
      \<lparr>name = PyStr ''ALO'', position = 9, constructor = PyStr ''Aston Martin''\<rparr>]"

definition monaco_event :: event_info where
  "monaco_event = EventDict [''EventName'' \<mapsto> PyStr ''Monaco Grand Prix'', ''Location'' \<mapsto> PyStr ''Monaco'']"

text \<open>
  A table with float positions and both name columns; the second driver is not classified.
\<close>

definition named_standings :: dataframe where
  "named_standings =
     \<lparr>columns = [''Position'', ''GivenName'', ''FamilyName'', ''Abbreviation'', ''TeamName''],
      rows = [[PyFloat \<lparr>float_int = Some 1, float_str = ''1.0'', float_bool = True\<rparr>,
               PyStr ''Max'', PyStr ''Verstappen'', PyStr ''VER'', PyStr ''Red Bull Racing''],
              [NaN, PyStr ''Lance'', PyStr ''Stroll'', PyStr ''STR'', PyStr ''Aston Martin'']]\<rparr>"

definition named_row :: series where
  "named_row = map_of (zip (columns named_standings) (hd (rows named_standings)))"

definition named_driver :: driver where
  "named_driver =
     \<lparr>name = PyStr ''Max Verstappen'', position = 1, constructor = PyStr ''Red Bull Racing''\<rparr>"

text \<open>A table whose only name-bearing column is a float abbreviation.\<close>

definition numbered_standings :: dataframe where
  "numbered_standings =
     \<lparr>columns = [''Position'', ''Abbreviation'', ''TeamName''],
      rows = [[PyFloat \<lparr>float_int = Some 2, float_str = ''2.0'', float_bool = True\<rparr>,
               PyFloat \<lparr>float_int = Some 44, float_str = ''44.0'', float_bool = True\<rparr>,
               PyStr ''Ferrari'']]\<rparr>"

definition numbered_row :: series where
  "numbered_row = map_of (zip (columns numbered_standings) (hd (rows numbered_standings)))"

definition numbered_driver :: driver where
  "numbered_driver = \<lparr>name = PyStr ''44.0'', position = 2, constructor = PyStr ''Ferrari''\<rparr>"

text \<open>A table whose position is a digit after the separator character \<open>0x1C\<close>.\<close>

definition separator_standings :: dataframe where
  "separator_standings =
     \<lparr>columns = [''Position'', ''Abbreviation'', ''TeamName''],
      rows = [[PyStr ([CHR 0x1C] @ ''4''), PyStr ''VER'', PyStr ''Red Bull Racing'']]\<rparr>"

text \<open>A table whose only row has a position that is present and is not a number.\<close>

definition unparseable_standings :: dataframe where
  "unparseable_standings =
     \<lparr>columns = [''Position'', ''Abbreviation'', ''TeamName''],
      rows = [[PyStr ''DNF'', PyStr ''VER'', PyStr ''Red Bull Racing'']]\<rparr>"

text \<open>A table with name columns whose cells are missing, and a driver identifier.\<close>

definition nameless_standings :: dataframe where
  "nameless_standings =
     \<lparr>columns = [''Position'', ''GivenName'', ''FamilyName'', ''Driver'', ''Abbreviation'', ''TeamName''],
      rows = [[PyInt 1, NaN, NaN, PyStr ''max_verstappen'', PyStr ''VER'', PyStr ''Red Bull Racing'']]\<rparr>"

definition nameless_row :: series where
  "nameless_row = map_of (zip (columns nameless_standings) (hd (rows nameless_standings)))"

text \<open>Two events of a schedule, and a lookup by exact name.\<close>

definition late_event :: event where
  "late_event = \<lparr>EventName = ''Abu Dhabi Grand Prix'', Location = ''Yas Island'', EventDate = Some 20\<rparr>"

definition early_event :: event where
  "early_event = \<lparr>EventName = ''Monaco Grand Prix'', Location = ''Monaco'', EventDate = Some 10\<rparr>"

definition exact_lookup :: "event list \<Rightarrow> string \<Rightarrow> string + event option" where
  "exact_lookup schedule q = Inr (find (\<lambda>ev. EventName ev = q) schedule)"

section \<open>Sampling without replacement\<close>

lemma randbelow_less: "0 < n \<Longrightarrow> fst (randbelow g n) < n"
  by (simp add: randbelow_def)

lemma vacate_distinct:
  assumes "distinct xs" "j < length xs"
  shows "distinct (butlast (xs[j := last xs]))"
    and "set (butlast (xs[j := last xs])) = set xs - {xs ! j}"
proof -
  from assms(2) have ne: "xs \<noteq> []" by auto
  then obtain ys l where xs: "xs = ys @ [l]" by (metis append_butlast_last_id)
  from assms(1) xs have dys: "distinct ys" and l: "l \<notin> set ys" by auto
  show "distinct (butlast (xs[j := last xs]))"
  proof (cases "j < length ys")
    case True
    then show ?thesis using dys l xs by (simp add: list_update_append distinct_list_update)
  next
    case False
    then show ?thesis using dys xs assms(2) by (simp add: list_update_append)
  qed
  show "set (butlast (xs[j := last xs])) = set xs - {xs ! j}"
  proof (cases "j < length ys")
    case True
    then show ?thesis using dys l xs
      by (auto simp: list_update_append set_update_distinct nth_append)
  next
    case False
    with assms(2) xs have "j = length ys" by simp
    then show ?thesis using dys l xs by (auto simp: list_update_append)
  qed
qed

lemma sample_loop_distinct:
  "distinct xs \<Longrightarrow> k \<le> length xs \<Longrightarrow>
   distinct (fst (sample_loop g xs k)) \<and> set (fst (sample_loop g xs k)) \<subseteq> set xs \<and>
   length (fst (sample_loop g xs k)) = k"
proof (induction k arbitrary: g xs)
  case 0
  then show ?case by simp
next
  case (Suc k)
  let ?j = "fst (randbelow g (length xs))"
  let ?g1 = "snd (randbelow g (length xs))"
  let ?xs' = "butlast (xs[?j := last xs])"
  from Suc.prems have jlt: "?j < length xs" by (intro randbelow_less) auto
  have d': "distinct ?xs'" and s': "set ?xs' = set xs - {xs ! ?j}"
    using vacate_distinct[OF Suc.prems(1) jlt] by simp_all
  have len: "k \<le> length ?xs'" using Suc.prems(2) by simp
  note ih = Suc.IH[OF d' len, of ?g1]
  have unf: "fst (sample_loop g xs (Suc k)) = xs ! ?j # fst (sample_loop ?g1 ?xs' k)"
    by (simp add: split_beta)
  show ?case unfolding unf using ih s' jlt by auto
qed

lemma sample_loop_map:
  "k \<le> length xs \<Longrightarrow>
   sample_loop g (map f xs) k = (map f (fst (sample_loop g xs k)), snd (sample_loop g xs k))"
proof (induction k arbitrary: g xs)
  case 0
  then show ?case by simp
next
  case (Suc k)
  let ?j = "fst (randbelow g (length xs))"
  let ?g1 = "snd (randbelow g (length xs))"
  from Suc.prems have ne: "xs \<noteq> []" by auto
  from Suc.prems have jlt: "?j < length xs" by (intro randbelow_less) auto
  have step: "butlast ((map f xs)[?j := last (map f xs)]) = map f (butlast (xs[?j := last xs]))"
    using ne by (simp add: last_map map_update map_butlast)
  have len: "k \<le> length (butlast (xs[?j := last xs]))" using Suc.prems by simp
  show ?case
    using Suc.IH[OF len, of ?g1] step jlt by (simp add: split_beta)
qed

lemma sample_loop_indices:
  assumes "k \<le> length xs"
  shows "\<exists>idxs. fst (sample_loop g xs k) = map ((!) xs) idxs \<and> distinct idxs \<and>
           (\<forall>i\<in>set idxs. i < length xs) \<and> length idxs = k"
proof -
  let ?is = "fst (sample_loop g [0..<length xs] k)"
  have "sample_loop g (map ((!) xs) [0..<length xs]) k =
          (map ((!) xs) ?is, snd (sample_loop g [0..<length xs] k))"
    using assms by (intro sample_loop_map) simp
  then have "fst (sample_loop g xs k) = map ((!) xs) ?is" by (simp add: map_nth)
  moreover have "distinct ?is \<and> set ?is \<subseteq> set [0..<length xs] \<and> length ?is = k"
    using assms by (intro sample_loop_distinct) simp_all
  ultimately show ?thesis by (intro exI[of _ ?is]) auto
qed

lemma random_sample_returns:
  assumes "k \<le> length xs"
  shows "\<exists>ys g' idxs. random_sample g xs k = Inr (ys, g') \<and> ys = map ((!) xs) idxs \<and>
           distinct idxs \<and> (\<forall>i\<in>set idxs. i < length xs) \<and> length idxs = k"
proof -
  obtain idxs where "fst (sample_loop g xs k) = map ((!) xs) idxs" "distinct idxs"
    "\<forall>i\<in>set idxs. i < length xs" "length idxs = k"
    using sample_loop_indices[OF assms] by blast
  then show ?thesis using assms
    by (cases "sample_loop g xs k") (auto simp: random_sample_def)
qed

lemma choice_or_none_returns:
  "\<exists>d g'. choice_or_none g pool = Inr (d, g') \<and>
     ((pool = [] \<and> d = None) \<or> (pool \<noteq> [] \<and> (\<exists>x\<in>set pool. d = Some x)))"
proof (cases "pool = []")
  case True
  then show ?thesis by (simp add: choice_or_none_def)
next
  case False
  then have "fst (randbelow g (length pool)) < length pool" by (intro randbelow_less) simp
  then show ?thesis using False
    by (cases "randbelow g (length pool)") (auto simp: choice_or_none_def random_choice_def)
qed

lemma select_drivers_returns:
  "\<exists>podium idxs dh ps.
     select_drivers g drivers =
       Inr \<lparr>top_contenders = filter (\<lambda>d. position d \<le> 5) drivers,
            podium_favorites = podium,
            midfield_strong = filter (\<lambda>d. 4 \<le> position d \<and> position d \<le> 8) drivers,
            dark_horse = dh,
            midfield_pack = filter (\<lambda>d. 9 \<le> position d \<and> position d \<le> 15) drivers,
            potential_surprise = ps\<rparr> \<and>
     podium = map ((!) (filter (\<lambda>d. position d \<le> 5) drivers)) idxs \<and>
     distinct idxs \<and>
     (\<forall>i\<in>set idxs. i < length (filter (\<lambda>d. position d \<le> 5) drivers)) \<and>
     length idxs = min 3 (length (filter (\<lambda>d. position d \<le> 5) drivers)) \<and>
     ((filter (\<lambda>d. 4 \<le> position d \<and> position d \<le> 8) drivers = [] \<and> dh = None) \<or>
      (filter (\<lambda>d. 4 \<le> position d \<and> position d \<le> 8) drivers \<noteq> [] \<and>
       (\<exists>x\<in>set (filter (\<lambda>d. 4 \<le> position d \<and> position d \<le> 8) drivers). dh = Some x))) \<and>
     ((filter (\<lambda>d. 9 \<le> position d \<and> position d \<le> 15) drivers = [] \<and> ps = None) \<or>
      (filter (\<lambda>d. 9 \<le> position d \<and> position d \<le> 15) drivers \<noteq> [] \<and>
       (\<exists>x\<in>set (filter (\<lambda>d. 9 \<le> position d \<and> position d \<le> 15) drivers). ps = Some x)))"
proof -
  let ?top = "filter (\<lambda>d. position d \<le> 5) drivers"
  let ?strong = "filter (\<lambda>d. 4 \<le> position d \<and> position d \<le> 8) drivers"
  let ?pack = "filter (\<lambda>d. 9 \<le> position d \<and> position d \<le> 15) drivers"
  have "min 3 (length ?top) \<le> length ?top" by simp
  from random_sample_returns[OF this, of g]
  obtain podium g1 idxs where
    s: "random_sample g ?top (min 3 (length ?top)) = Inr (podium, g1)"
    and p: "podium = map ((!) ?top) idxs" "distinct idxs" "\<forall>i\<in>set idxs. i < length ?top"
      "length idxs = min 3 (length ?top)"
    by blast
  from choice_or_none_returns[of g1 ?strong]
  obtain dh g2 where c1: "choice_or_none g1 ?strong = Inr (dh, g2)"
    and d: "(?strong = [] \<and> dh = None) \<or> (?strong \<noteq> [] \<and> (\<exists>x\<in>set ?strong. dh = Some x))"
    by blast
  from choice_or_none_returns[of g2 ?pack]
  obtain ps g3 where c2: "choice_or_none g2 ?pack = Inr (ps, g3)"
    and e: "(?pack = [] \<and> ps = None) \<or> (?pack \<noteq> [] \<and> (\<exists>x\<in>set ?pack. ps = Some x))"
    by blast
  have "select_drivers g drivers =
       Inr \<lparr>top_contenders = ?top, podium_favorites = podium, midfield_strong = ?strong,
            dark_horse = dh, midfield_pack = ?pack, potential_surprise = ps\<rparr>"
    by (simp add: select_drivers_def Let_def s c1 c2)
  with p d e show ?thesis by blast
qed

lemma generate_prediction_steps:
  assumes "\<not> df_empty df"
  shows "generate_prediction g (Some df) ev =
     (case drivers_loop [] (iterrows df) of
        Inl e \<Rightarrow> Inl e
      | Inr drivers \<Rightarrow>
        (case select_drivers g drivers of
           Inl e \<Rightarrow> Inl e
         | Inr sel \<Rightarrow>
           (case resolve_event ev of
              Inl e \<Rightarrow> Inl e
            | Inr r \<Rightarrow> Inr (prediction_record sel (fst r) (fst (snd r)) (snd (snd r))))))"
  using assms
  by (simp add: generate_prediction_def prediction_locals_def split: sum.splits prod.splits)

section \<open>Facts about the sample inputs\<close>

lemma sample_iterrows: "drivers_loop [] (iterrows sample_standings) = Inr sample_drivers"
  by (simp add: iterrows_def sample_standings_def sample_drivers_def row_driver_def getitem_def
      driver_name_def)

lemma sample_not_empty: "\<not> df_empty sample_standings"
  by (simp add: df_empty_def sample_standings_def)

lemma monaco_resolves:
  "resolve_event monaco_event =
     Inr (''The crown jewel. Overtaking is nearly impossible, so qualifying is everything.'',
          PyStr ''Monaco Grand Prix'', PyStr ''Monaco'')"
  by (simp add: resolve_event_def monaco_event_def or_none_def event_tidbit_def
      CIRCUIT_TIDBITS_def str_lower_def lower_char_def char_of_def bit_0)

section \<open>The standings guard\<close>

text \<open>
  C1. When the standings are \<open>None\<close> or an empty table, \<open>generate_prediction\<close> returns the
  dict with the single item \<open>error: "Cannot generate prediction without driver standings."\<close>,
  whatever the event descriptor and the random source are.
\<close>

theorem empty_standings_error:
  assumes "standings_df = None \<or> (\<exists>df. standings_df = Some df \<and> df_empty df)"
  shows "generate_prediction g standings_df ev =
           Inr [(''error'', Scalar (PyStr ''Cannot generate prediction without driver standings.''))]"
  using assms by (auto simp: generate_prediction_def error_record_def)

theorem empty_standings_error_witness:
  "df_empty \<lparr>columns = [''Position'', ''Abbreviation'', ''TeamName''], rows = []\<rparr> \<and>
   generate_prediction sample_rng
       (Some \<lparr>columns = [''Position'', ''Abbreviation'', ''TeamName''], rows = []\<rparr>) monaco_event =
     Inr [(''error'', Scalar (PyStr ''Cannot generate prediction without driver standings.''))] \<and>
   generate_prediction sample_rng None NoEvent =
     Inr [(''error'', Scalar (PyStr ''Cannot generate prediction without driver standings.''))]"
proof -
  have e: "df_empty \<lparr>columns = [''Position'', ''Abbreviation'', ''TeamName''], rows = []\<rparr>"
    by (simp add: df_empty_def)
  show ?thesis
    using e
      empty_standings_error[of "Some \<lparr>columns = [''Position'', ''Abbreviation'', ''TeamName''], rows = []\<rparr>"
        sample_rng monaco_event]
      empty_standings_error[of None sample_rng NoEvent]
    by simp
qed

section \<open>The picks\<close>

lemma distinct_map_nth:
  assumes "distinct xs" "distinct idxs" "\<forall>i\<in>set idxs. i < length xs"
  shows "distinct (map ((!) xs) idxs)"
proof -
  have "inj_on ((!) xs) (set idxs)"
    using assms(1,3) by (auto simp: inj_on_def nth_eq_iff_index_eq)
  with assms(2) show ?thesis by (simp add: distinct_map)
qed

text \<open>
  C2. Once the candidate list is built and the event resolved, \<open>generate_prediction\<close>
  returns, and \<open>podium_favorites\<close> holds the candidates at pairwise different places of the
  top pool (the candidates with position at most 5): exactly 3 when the pool has at least
  3 drivers, as many as the pool has otherwise. Every pick has position at most 5, and
  the picks are different drivers whenever the pool's drivers are.
\<close>

theorem podium_favorites_sample:
  assumes "drivers_loop [] (iterrows df) = Inr drivers"
    and "\<not> df_empty df"
    and "resolve_event ev = Inr r"
  shows "\<exists>res podium idxs.
      generate_prediction g (Some df) ev = Inr res \<and>
      map_of res ''podium_favorites'' = Some (DriverDicts podium) \<and>
      podium = map ((!) (filter (\<lambda>d. position d \<le> 5) drivers)) idxs \<and>
      distinct idxs \<and>
      (\<forall>i\<in>set idxs. i < length (filter (\<lambda>d. position d \<le> 5) drivers)) \<and>
      (3 \<le> length (filter (\<lambda>d. position d \<le> 5) drivers) \<longrightarrow> length podium = 3) \<and>
      (length (filter (\<lambda>d. position d \<le> 5) drivers) < 3 \<longrightarrow>
         length podium = length (filter (\<lambda>d. position d \<le> 5) drivers)) \<and>
      (\<forall>d\<in>set podium. position d \<le> 5 \<and> d \<in> set drivers) \<and>
      (distinct (filter (\<lambda>d. position d \<le> 5) drivers) \<longrightarrow> distinct podium)"
proof -
  let ?top = "filter (\<lambda>d. position d \<le> 5) drivers"
  from select_drivers_returns[of g drivers]
  obtain sel idxs where sel: "select_drivers g drivers = Inr sel"
    and pod: "podium_favorites sel = map ((!) ?top) idxs"
    and idx: "distinct idxs" "\<forall>i\<in>set idxs. i < length ?top" "length idxs = min 3 (length ?top)"
    by fastforce
  let ?res = "prediction_record sel (fst r) (fst (snd r)) (snd (snd r))"
  have ret: "generate_prediction g (Some df) ev = Inr ?res"
    using assms sel by (simp add: generate_prediction_steps)
  have key: "map_of ?res ''podium_favorites'' = Some (DriverDicts (podium_favorites sel))"
    by (simp add: prediction_record_def)
  have mem: "\<forall>d\<in>set (map ((!) ?top) idxs). d \<in> set ?top"
  proof
    fix d assume "d \<in> set (map ((!) ?top) idxs)"
    then obtain i where i: "i \<in> set idxs" "d = ?top ! i" by auto
    from i(1) idx(2) have "i < length ?top" by blast
    with i(2) show "d \<in> set ?top" by (metis nth_mem)
  qed
  have pos: "\<forall>d\<in>set (podium_favorites sel). position d \<le> 5 \<and> d \<in> set drivers"
  proof
    fix d assume "d \<in> set (podium_favorites sel)"
    with mem pod have "d \<in> set ?top" by metis
    then show "position d \<le> 5 \<and> d \<in> set drivers" by simp
  qed
  have dist: "distinct ?top \<longrightarrow> distinct (podium_favorites sel)"
    using idx pod by (simp add: distinct_map_nth)
  have len: "length (podium_favorites sel) = min 3 (length ?top)"
    using pod idx(3) by simp
  have len3: "3 \<le> length ?top \<longrightarrow> length (podium_favorites sel) = 3"
    using len by simp
  have lenn: "length ?top < 3 \<longrightarrow> length (podium_favorites sel) = length ?top"
    using len by simp
  from ret key pod idx(1,2) len3 lenn pos dist show ?thesis
    by blast
qed

theorem podium_favorites_sample_witness:
  "drivers_loop [] (iterrows sample_standings) = Inr sample_drivers \<and>
   \<not> df_empty sample_standings \<and>
   3 \<le> length (filter (\<lambda>d. position d \<le> 5) sample_drivers) \<and>
   (\<exists>res podium idxs.
      generate_prediction sample_rng (Some sample_standings) monaco_event = Inr res \<and>
      map_of res ''podium_favorites'' = Some (DriverDicts podium) \<and>
      podium = map ((!) (filter (\<lambda>d. position d \<le> 5) sample_drivers)) idxs \<and>
      distinct idxs \<and> length podium = 3 \<and> distinct podium)"
proof -
  have three: "3 \<le> length (filter (\<lambda>d. position d \<le> 5) sample_drivers)"
    by (simp add: sample_drivers_def)
  have dist: "distinct (filter (\<lambda>d. position d \<le> 5) sample_drivers)"
    by (simp add: sample_drivers_def)
  from podium_favorites_sample[OF sample_iterrows sample_not_empty monaco_resolves, of sample_rng]
  show ?thesis
    using three dist sample_iterrows sample_not_empty by blast
qed

text \<open>
  C3. Once the candidate list is built and the event resolved, \<open>generate_prediction\<close>
  returns; \<open>dark_horse\<close> is \<open>None\<close> when no candidate has a position from 4 to 8 and is
  one of those candidates otherwise; \<open>potential_surprise\<close> is \<open>None\<close> when no candidate has a
  position from 9 to 15 and is one of those candidates otherwise.
\<close>

theorem dark_horse_and_surprise:
  assumes "drivers_loop [] (iterrows df) = Inr drivers"
    and "\<not> df_empty df"
    and "resolve_event ev = Inr r"
  shows "\<exists>res.
      generate_prediction g (Some df) ev = Inr res \<and>
      ((filter (\<lambda>d. 4 \<le> position d \<and> position d \<le> 8) drivers = [] \<and>
        map_of res ''dark_horse'' = Some (Scalar PyNone)) \<or>
       (filter (\<lambda>d. 4 \<le> position d \<and> position d \<le> 8) drivers \<noteq> [] \<and>
        (\<exists>d. map_of res ''dark_horse'' = Some (DriverDict d) \<and> d \<in> set drivers \<and>
             4 \<le> position d \<and> position d \<le> 8))) \<and>
      ((filter (\<lambda>d. 9 \<le> position d \<and> position d \<le> 15) drivers = [] \<and>
        map_of res ''potential_surprise'' = Some (Scalar PyNone)) \<or>
       (filter (\<lambda>d. 9 \<le> position d \<and> position d \<le> 15) drivers \<noteq> [] \<and>
        (\<exists>d. map_of res ''potential_surprise'' = Some (DriverDict d) \<and> d \<in> set drivers \<and>
             9 \<le> position d \<and> position d \<le> 15)))"
proof -
  let ?strong = "filter (\<lambda>d. 4 \<le> position d \<and> position d \<le> 8) drivers"
  let ?pack = "filter (\<lambda>d. 9 \<le> position d \<and> position d \<le> 15) drivers"
  from select_drivers_returns[of g drivers]
  obtain sel where sel: "select_drivers g drivers = Inr sel"
    and dh: "(?strong = [] \<and> dark_horse sel = None) \<or>
             (?strong \<noteq> [] \<and> (\<exists>x\<in>set ?strong. dark_horse sel = Some x))"
    and ps: "(?pack = [] \<and> potential_surprise sel = None) \<or>
             (?pack \<noteq> [] \<and> (\<exists>x\<in>set ?pack. potential_surprise sel = Some x))"
    by fastforce
  let ?res = "prediction_record sel (fst r) (fst (snd r)) (snd (snd r))"
  have ret: "generate_prediction g (Some df) ev = Inr ?res"
    using assms sel by (simp add: generate_prediction_steps)
  have k1: "map_of ?res ''dark_horse'' = Some (driver_or_none (dark_horse sel))"
    by (simp add: prediction_record_def)
  have k2: "map_of ?res ''potential_surprise'' = Some (driver_or_none (potential_surprise sel))"
    by (simp add: prediction_record_def)
  have a: "(?strong = [] \<and> map_of ?res ''dark_horse'' = Some (Scalar PyNone)) \<or>
       (?strong \<noteq> [] \<and>
        (\<exists>d. map_of ?res ''dark_horse'' = Some (DriverDict d) \<and> d \<in> set drivers \<and>
             4 \<le> position d \<and> position d \<le> 8))"
    using dh unfolding k1 by (auto simp: driver_or_none_def)
  have b: "(?pack = [] \<and> map_of ?res ''potential_surprise'' = Some (Scalar PyNone)) \<or>
       (?pack \<noteq> [] \<and>
        (\<exists>d. map_of ?res ''potential_surprise'' = Some (DriverDict d) \<and> d \<in> set drivers \<and>
             9 \<le> position d \<and> position d \<le> 15))"
    using ps unfolding k2 by (auto simp: driver_or_none_def)
  show ?thesis using ret a b by blast
qed

theorem dark_horse_and_surprise_witness:
  "drivers_loop [] (iterrows sample_standings) = Inr sample_drivers \<and>
   \<not> df_empty sample_standings \<and>
   (\<exists>res d s.
      generate_prediction sample_rng (Some sample_standings) monaco_event = Inr res \<and>
      map_of res ''dark_horse'' = Some (DriverDict d) \<and> 4 \<le> position d \<and> position d \<le> 8 \<and>
      map_of res ''potential_surprise'' = Some (DriverDict s) \<and> 9 \<le> position s \<and> position s \<le> 15)"
proof -
  have s: "filter (\<lambda>d. 4 \<le> position d \<and> position d \<le> 8) sample_drivers \<noteq> []"
    by (simp add: sample_drivers_def)
  have p: "filter (\<lambda>d. 9 \<le> position d \<and> position d \<le> 15) sample_drivers \<noteq> []"
    by (simp add: sample_drivers_def)
  from dark_horse_and_surprise[OF sample_iterrows sample_not_empty monaco_resolves, of sample_rng]
  show ?thesis
    using s p sample_iterrows sample_not_empty by blast
qed

section \<open>Conversions on sample values\<close>

lemma int_conversions:
  "py_int (PyStr '' 12 '') = Inr 12"
  "py_int (PyStr ''-007'') = Inr (- 7)"
  "py_int (PyStr ''+1_000'') = Inr 1000"
  "py_int (PyStr ([CHR 0xA0] @ ''4'' @ [CHR 0x85])) = Inr 4"
  "py_int (PyStr ([CHR 0x1C] @ ''4'')) = Inl ValueError"
  "py_int (PyStr (''4'' @ [CHR 0x1F])) = Inl ValueError"
  "py_int (PyStr ''1__0'') = Inl ValueError"
  "py_int (PyStr ''_1'') = Inl ValueError"
  "py_int (PyStr ''3.0'') = Inl ValueError"
  "py_int (PyStr ''DNF'') = Inl ValueError"
  "py_int (PyStr []) = Inl ValueError"
  "py_int (PyFloat \<lparr>float_int = Some 3, float_str = ''3.0'', float_bool = True\<rparr>) = Inr 3"
  "py_int (PyFloat \<lparr>float_int = None, float_str = ''inf'', float_bool = True\<rparr>) = Inl OverflowError"
  by (simp_all add: int_of_str_def parse_literal_def max_str_digits_def strip_def is_space_def
      is_digit_def)

lemma str_conversions:
  "py_str (PyInt 44) = Inr ''44''"
  "py_str (PyInt (- 12)) = Inr ''-12''"
  "py_str (PyInt 0) = Inr ''0''"
  "py_str (PyFloat \<lparr>float_int = Some 44, float_str = ''44.0'', float_bool = True\<rparr>) = Inr ''44.0''"
  "py_str NaN = Inr ''nan''"
  "py_str PyNone = Inr ''None''"
  by (simp_all add: max_str_digits_def int_str_def nat_digits.simps digit_char_def char_of_def bit_0)

lemma nat_digits_not_empty: "nat_digits n \<noteq> []"
  by (subst nat_digits.simps) simp

lemma nat_digits_length:
  "0 < k \<Longrightarrow> length (nat_digits n) \<le> k \<longleftrightarrow> n < 10 ^ k"
proof (induction n arbitrary: k rule: nat_digits.induct)
  case (1 n)
  show ?case
  proof (cases "n < 10")
    case True
    have "(10::nat) ^ 1 \<le> 10 ^ k" using "1.prems" by (intro power_increasing) simp_all
    with True have "n < 10 ^ k" by simp
    with True "1.prems" show ?thesis by (simp add: nat_digits.simps[of n])
  next
    case False
    show ?thesis
    proof (cases "k = 1")
      case True
      with False show ?thesis by (simp add: nat_digits.simps[of n] nat_digits_not_empty)
    next
      case k: False
      with "1.prems" obtain j where j: "k = Suc j" "0 < j" by (cases k) auto
      from "1.IH"[OF False j(2)] have "length (nat_digits (n div 10)) \<le> j \<longleftrightarrow> n div 10 < 10 ^ j" .
      moreover have "n div 10 < 10 ^ j \<longleftrightarrow> n < 10 ^ Suc j"
        by (simp add: div_less_iff_less_mult mult.commute)
      ultimately show ?thesis using False j by (simp add: nat_digits.simps[of n])
    qed
  qed
qed

lemma py_str_int_limit:
  "py_str (PyInt i) = (if \<bar>i\<bar> < 10 ^ max_str_digits then Inr (int_str i) else Inl ValueError)"
proof -
  have pos: "0 < max_str_digits" by (simp add: max_str_digits_def)
  have "length (nat_digits (nat \<bar>i\<bar>)) \<le> max_str_digits \<longleftrightarrow> nat \<bar>i\<bar> < 10 ^ max_str_digits"
    by (rule nat_digits_length[OF pos])
  also have "\<dots> \<longleftrightarrow> \<bar>i\<bar> < 10 ^ max_str_digits"
    by (simp add: nat_less_iff)
  finally have "max_str_digits < length (nat_digits (nat \<bar>i\<bar>)) \<longleftrightarrow> \<not> \<bar>i\<bar> < 10 ^ max_str_digits"
    by (simp add: not_le[symmetric] del: not_le)
  then show ?thesis by simp
qed

lemma py_str_returns:
  "(\<exists>t. py_str v = Inr t) \<longleftrightarrow> (\<forall>i. v = PyInt i \<longrightarrow> \<bar>i\<bar> < 10 ^ max_str_digits)"
proof (cases v)
  case (PyInt i)
  then show ?thesis by (simp only: py_str_int_limit) simp
qed simp_all

section \<open>The candidate list\<close>

lemma row_driver_skip:
  "row_driver s = Inr None \<longleftrightarrow> (\<exists>p. s ''Position'' = Some p \<and> isna p)"
  by (auto simp: row_driver_def getitem_def split: option.splits sum.splits)

lemma row_driver_keep:
  "row_driver s = Inr (Some d) \<longleftrightarrow>
     (\<exists>p nm i team. s ''Position'' = Some p \<and> \<not> isna p \<and> driver_name s = Inr nm \<and>
        py_int p = Inr i \<and> s ''TeamName'' = Some team \<and>
        d = \<lparr>name = nm, position = i, constructor = team\<rparr>)"
  by (auto simp: row_driver_def getitem_def split: option.splits sum.splits)

lemma row_driver_returns:
  "(\<exists>r. row_driver s = Inr r) \<longleftrightarrow>
     (\<exists>p. s ''Position'' = Some p \<and>
        (isna p \<or> ((\<exists>nm. driver_name s = Inr nm) \<and> (\<exists>i. py_int p = Inr i) \<and>
                   s ''TeamName'' \<noteq> None)))"
  by (auto simp: row_driver_def getitem_def split: option.splits sum.splits)

lemma drivers_loop_Inr:
  "drivers_loop acc ss = Inr ds \<longleftrightarrow>
     (\<forall>s\<in>set ss. \<exists>r. row_driver s = Inr r) \<and> ds = acc @ concat (map kept ss)"
proof (induction ss arbitrary: acc)
  case Nil
  then show ?case by auto
next
  case (Cons s ss)
  show ?case
  proof (cases "row_driver s")
    case (Inl e)
    then show ?thesis by simp
  next
    case (Inr r)
    then show ?thesis using Cons.IH
      by (cases r) (auto simp: kept_def)
  qed
qed

lemma kept_positions:
  "map (\<lambda>d. Inr (position d)) (kept s) =
     map (\<lambda>s. py_int (or_none (s ''Position''))) (filter (\<lambda>s. \<not> isna (or_none (s ''Position''))) [s])"
  if "\<exists>r. row_driver s = Inr r"
proof -
  from that obtain r where r: "row_driver s = Inr r" by blast
  show ?thesis
  proof (cases r)
    case None
    with r obtain p where "s ''Position'' = Some p" "isna p"
      using row_driver_skip by blast
    with r None show ?thesis by (simp add: kept_def or_none_def)
  next
    case (Some d)
    with r obtain p nm i team where "s ''Position'' = Some p" "\<not> isna p" "py_int p = Inr i"
      "d = \<lparr>name = nm, position = i, constructor = team\<rparr>"
      using row_driver_keep by blast
    with r Some show ?thesis by (simp add: kept_def or_none_def)
  qed
qed

lemma concat_kept_positions:
  assumes "\<forall>s\<in>set ss. \<exists>r. row_driver s = Inr r"
  shows "map (\<lambda>d. Inr (position d)) (concat (map kept ss)) =
     map (\<lambda>s. py_int (or_none (s ''Position''))) (filter (\<lambda>s. \<not> isna (or_none (s ''Position''))) ss)"
  using assms
proof (induction ss)
  case Nil
  then show ?case by simp
next
  case (Cons s ss)
  then have "\<exists>r. row_driver s = Inr r" by simp
  from kept_positions[OF this] Cons show ?case by (simp split: if_splits)
qed

lemma event_tidbit_returns:
  "(\<exists>t. event_tidbit v = Inr t) \<longleftrightarrow> (\<not> truthy v \<or> (\<exists>n. v = PyStr n))"
  by (cases v) (auto simp: event_tidbit_def)

lemma resolve_event_returns:
  "(\<exists>r. resolve_event ev = Inr r) \<longleftrightarrow>
     (\<not> truthy (event_field ev ''EventName'') \<or> (\<exists>n. event_field ev ''EventName'' = PyStr n))"
proof (cases ev)
  case NoEvent
  then show ?thesis by (simp add: resolve_event_def)
next
  case (EventDict d)
  then show ?thesis
    using event_tidbit_returns[of "event_field ev ''EventName''"]
    by (auto simp: resolve_event_def Let_def split: sum.splits)
next
  case (EventObject a)
  then show ?thesis
    using event_tidbit_returns[of "event_field ev ''EventName''"]
    by (auto simp: resolve_event_def Let_def split: sum.splits)
qed

text \<open>
  C4, as the code has it. On a table that is not empty and has no repeated column label,
  \<open>generate_prediction\<close> returns without raising exactly when every row has a \<open>Position\<close>
  cell that is missing, or else has a name that can be derived, a position that \<open>int()\<close>
  converts and a \<open>TeamName\<close> cell, and the event name is false or a string. The rows with
  a missing position are skipped: the candidates are, in order, the rows whose position
  is not missing, each with the integer of its position.
\<close>

theorem returns_without_exception:
  assumes "\<not> df_empty df"
    and "distinct (columns df)"
  shows "((\<exists>res. generate_prediction g (Some df) ev = Inr res) \<longleftrightarrow>
            (\<forall>s\<in>set (iterrows df). \<exists>p. s ''Position'' = Some p \<and>
               (isna p \<or> ((\<exists>nm. driver_name s = Inr nm) \<and> (\<exists>i. py_int p = Inr i) \<and>
                          s ''TeamName'' \<noteq> None))) \<and>
            (\<not> truthy (event_field ev ''EventName'') \<or>
             (\<exists>n. event_field ev ''EventName'' = PyStr n))) \<and>
         (\<forall>drivers. drivers_loop [] (iterrows df) = Inr drivers \<longrightarrow>
            map (\<lambda>d. Inr (position d)) drivers =
              map (\<lambda>s. py_int (or_none (s ''Position'')))
                (filter (\<lambda>s. \<not> isna (or_none (s ''Position''))) (iterrows df)))"
proof -
  let ?rows = "\<forall>s\<in>set (iterrows df). \<exists>p. s ''Position'' = Some p \<and>
               (isna p \<or> ((\<exists>nm. driver_name s = Inr nm) \<and> (\<exists>i. py_int p = Inr i) \<and>
                          s ''TeamName'' \<noteq> None))"
  let ?event = "\<not> truthy (event_field ev ''EventName'') \<or>
             (\<exists>n. event_field ev ''EventName'' = PyStr n)"
  have rows: "(\<exists>ds. drivers_loop [] (iterrows df) = Inr ds) \<longleftrightarrow> ?rows"
    by (simp add: drivers_loop_Inr row_driver_returns)
  have "(\<exists>res. generate_prediction g (Some df) ev = Inr res) \<longleftrightarrow>
          (\<exists>ds. drivers_loop [] (iterrows df) = Inr ds) \<and> (\<exists>r. resolve_event ev = Inr r)"
  proof
    assume "\<exists>res. generate_prediction g (Some df) ev = Inr res"
    then show "(\<exists>ds. drivers_loop [] (iterrows df) = Inr ds) \<and> (\<exists>r. resolve_event ev = Inr r)"
      using assms(1) by (auto simp: generate_prediction_steps split: sum.splits)
  next
    assume "(\<exists>ds. drivers_loop [] (iterrows df) = Inr ds) \<and> (\<exists>r. resolve_event ev = Inr r)"
    then obtain ds r where ds: "drivers_loop [] (iterrows df) = Inr ds"
      and r: "resolve_event ev = Inr r" by blast
    obtain sel where "select_drivers g ds = Inr sel"
      using select_drivers_returns[of g ds] by blast
    with ds r assms(1) show "\<exists>res. generate_prediction g (Some df) ev = Inr res"
      by (simp add: generate_prediction_steps)
  qed
  then have first: "(\<exists>res. generate_prediction g (Some df) ev = Inr res) \<longleftrightarrow> ?rows \<and> ?event"
    using rows resolve_event_returns[of ev] by simp
  have second: "\<forall>drivers. drivers_loop [] (iterrows df) = Inr drivers \<longrightarrow>
            map (\<lambda>d. Inr (position d)) drivers =
              map (\<lambda>s. py_int (or_none (s ''Position'')))
                (filter (\<lambda>s. \<not> isna (or_none (s ''Position''))) (iterrows df))"
    using concat_kept_positions by (simp add: drivers_loop_Inr)
  from first second show ?thesis by blast
qed

lemma named_iterrows: "drivers_loop [] (iterrows named_standings) = Inr [named_driver]"
  by (simp add: iterrows_def named_standings_def named_driver_def row_driver_def getitem_def
      driver_name_def)

theorem returns_without_exception_witness:
  "\<not> df_empty sample_standings \<and> distinct (columns sample_standings) \<and>
   (\<exists>res. generate_prediction sample_rng (Some sample_standings) monaco_event = Inr res) \<and>
   drivers_loop [] (iterrows sample_standings) = Inr sample_drivers \<and>
   length (iterrows sample_standings) = 7 \<and>
   map position sample_drivers = [1, 2, 3, 4, 6, 9] \<and>
   \<not> df_empty named_standings \<and> distinct (columns named_standings) \<and>
   (\<exists>res. generate_prediction sample_rng (Some named_standings) NoEvent = Inr res) \<and>
   drivers_loop [] (iterrows named_standings) = Inr [named_driver] \<and>
   length (iterrows named_standings) = 2 \<and>
   \<not> df_empty separator_standings \<and> distinct (columns separator_standings) \<and>
   (\<nexists>res. generate_prediction sample_rng (Some separator_standings) NoEvent = Inr res)"
proof -
  have d1: "distinct (columns sample_standings)" by (simp add: sample_standings_def)
  have rows1: "\<forall>s\<in>set (iterrows sample_standings). \<exists>p. s ''Position'' = Some p \<and>
               (isna p \<or> ((\<exists>nm. driver_name s = Inr nm) \<and> (\<exists>i. py_int p = Inr i) \<and>
                          s ''TeamName'' \<noteq> None))"
    by (simp add: iterrows_def sample_standings_def driver_name_def)
  have ev1: "\<not> truthy (event_field monaco_event ''EventName'') \<or>
      (\<exists>n. event_field monaco_event ''EventName'' = PyStr n)"
    by (simp add: monaco_event_def or_none_def)
  have len1: "length (iterrows sample_standings) = 7"
    by (simp add: iterrows_def sample_standings_def)
  have pos1: "map position sample_drivers = [1, 2, 3, 4, 6, 9]"
    by (simp add: sample_drivers_def)
  have r1: "\<exists>res. generate_prediction sample_rng (Some sample_standings) monaco_event = Inr res"
    by (rule returns_without_exception[OF sample_not_empty d1, of sample_rng monaco_event,
          THEN conjunct1, THEN iffD2, OF conjI[OF rows1 ev1]])
  have e2: "\<not> df_empty named_standings" by (simp add: df_empty_def named_standings_def)
  have d2: "distinct (columns named_standings)" by (simp add: named_standings_def)
  have rows2: "\<forall>s\<in>set (iterrows named_standings). \<exists>p. s ''Position'' = Some p \<and>
               (isna p \<or> ((\<exists>nm. driver_name s = Inr nm) \<and> (\<exists>i. py_int p = Inr i) \<and>
                          s ''TeamName'' \<noteq> None))"
    by (simp add: iterrows_def named_standings_def driver_name_def)
  have ev2: "\<not> truthy (event_field NoEvent ''EventName'') \<or>
      (\<exists>n. event_field NoEvent ''EventName'' = PyStr n)"
    by simp
  have len2: "length (iterrows named_standings) = 2"
    by (simp add: iterrows_def named_standings_def)
  have r2: "\<exists>res. generate_prediction sample_rng (Some named_standings) NoEvent = Inr res"
    by (rule returns_without_exception[OF e2 d2, of sample_rng NoEvent,
          THEN conjunct1, THEN iffD2, OF conjI[OF rows2 ev2]])
  have e3: "\<not> df_empty separator_standings" by (simp add: df_empty_def separator_standings_def)
  have d3: "distinct (columns separator_standings)" by (simp add: separator_standings_def)
  have rows3: "\<not> ((\<forall>s\<in>set (iterrows separator_standings). \<exists>p. s ''Position'' = Some p \<and>
               (isna p \<or> ((\<exists>nm. driver_name s = Inr nm) \<and> (\<exists>i. py_int p = Inr i) \<and>
                          s ''TeamName'' \<noteq> None))) \<and>
            (\<not> truthy (event_field NoEvent ''EventName'') \<or>
             (\<exists>n. event_field NoEvent ''EventName'' = PyStr n)))"
    by (simp add: iterrows_def separator_standings_def int_of_str_def parse_literal_def
        max_str_digits_def strip_def is_space_def is_digit_def)
  have r3: "\<nexists>res. generate_prediction sample_rng (Some separator_standings) NoEvent = Inr res"
    using returns_without_exception[OF e3 d3, of sample_rng NoEvent, THEN conjunct1] rows3
    by (simp only: simp_thms)
  show ?thesis
    by (intro conjI sample_not_empty d1 r1 sample_iterrows len1 pos1 e2 d2 r2 named_iterrows len2
        e3 d3 r3)
qed

text \<open>
  A row whose position is present and is not a number is not skipped: \<open>int()\<close> raises
  \<open>ValueError\<close>, and it leaves \<open>generate_prediction\<close>.
\<close>

theorem unparseable_position_raises:
  "\<not> df_empty unparseable_standings \<and>
   generate_prediction sample_rng (Some unparseable_standings) NoEvent = Inl ValueError"
  by (simp add: df_empty_def unparseable_standings_def generate_prediction_def
      prediction_locals_def iterrows_def row_driver_def getitem_def driver_name_def
      int_of_str_def parse_literal_def max_str_digits_def strip_def is_space_def is_digit_def)

section \<open>Driver names\<close>

lemma driver_name_cases:
  assumes "driver_name s = Inr nm"
  shows "(\<forall>given family. s ''GivenName'' = Some given \<and> s ''FamilyName'' = Some family \<longrightarrow>
      (\<exists>g f. py_str given = Inr g \<and> py_str family = Inr f \<and> nm = PyStr (g @ '' '' @ f))) \<and>
   (s ''GivenName'' = None \<or> s ''FamilyName'' = None \<longrightarrow>
      (\<forall>v. s ''Driver'' = Some v \<longrightarrow> nm = v) \<and>
      (s ''Driver'' = None \<longrightarrow>
         (\<forall>a. s ''Abbreviation'' = Some a \<longrightarrow> (\<exists>t. py_str a = Inr t \<and> nm = PyStr t)) \<and>
         (s ''Abbreviation'' = None \<longrightarrow> nm = PyStr ''Unknown'')))"
  using assms by (auto simp: driver_name_def split: option.splits sum.splits)

text \<open>
  C6, as the code has it. Every candidate comes from a row of the table, and its name is
  chosen by the columns the row has: the texts of the given and the family name joined
  by a space when the row has both columns; else the driver identifier as it is when the
  row has that column; else the text of the abbreviation when the row has that column;
  else \<open>Unknown\<close>. Each case is stated for the rows whose chosen cells are populated; a row
  with populated given and family name never gets its abbreviation.
\<close>

theorem driver_name_by_columns:
  assumes "drivers_loop [] (iterrows df) = Inr drivers"
    and "d \<in> set drivers"
  shows "\<exists>s\<in>set (iterrows df). row_driver s = Inr (Some d) \<and>
     (\<forall>given family.
        s ''GivenName'' = Some given \<and> s ''FamilyName'' = Some family \<and>
        \<not> isna given \<and> \<not> isna family \<longrightarrow>
        (\<exists>g f. py_str given = Inr g \<and> py_str family = Inr f \<and> name d = PyStr (g @ '' '' @ f))) \<and>
     (s ''GivenName'' = None \<or> s ''FamilyName'' = None \<longrightarrow>
        (\<forall>v. s ''Driver'' = Some v \<and> \<not> isna v \<longrightarrow> name d = v) \<and>
        (s ''Driver'' = None \<longrightarrow>
           (\<forall>a. s ''Abbreviation'' = Some a \<and> \<not> isna a \<longrightarrow>
              (\<exists>t. py_str a = Inr t \<and> name d = PyStr t)) \<and>
           (s ''Abbreviation'' = None \<longrightarrow> name d = PyStr ''Unknown'')))"
proof -
  from assms have "d \<in> set (concat (map kept (iterrows df)))"
    by (simp add: drivers_loop_Inr)
  then obtain s where s: "s \<in> set (iterrows df)" "d \<in> set (kept s)" by auto
  from s(2) have row: "row_driver s = Inr (Some d)"
    by (auto simp: kept_def split: sum.splits option.splits)
  then have nm: "driver_name s = Inr (name d)" by (auto simp: row_driver_keep)
  note shape = driver_name_cases[OF nm]
  have "(\<forall>given family.
        s ''GivenName'' = Some given \<and> s ''FamilyName'' = Some family \<and>
        \<not> isna given \<and> \<not> isna family \<longrightarrow>
        (\<exists>g f. py_str given = Inr g \<and> py_str family = Inr f \<and> name d = PyStr (g @ '' '' @ f))) \<and>
     (s ''GivenName'' = None \<or> s ''FamilyName'' = None \<longrightarrow>
        (\<forall>v. s ''Driver'' = Some v \<and> \<not> isna v \<longrightarrow> name d = v) \<and>
        (s ''Driver'' = None \<longrightarrow>
           (\<forall>a. s ''Abbreviation'' = Some a \<and> \<not> isna a \<longrightarrow>
              (\<exists>t. py_str a = Inr t \<and> name d = PyStr t)) \<and>
           (s ''Abbreviation'' = None \<longrightarrow> name d = PyStr ''Unknown'')))"
    using shape by blast
  then show ?thesis
    by (intro bexI[OF _ s(1)] conjI[OF row])
qed

lemma numbered_iterrows: "drivers_loop [] (iterrows numbered_standings) = Inr [numbered_driver]"
  by (simp add: iterrows_def numbered_standings_def numbered_driver_def row_driver_def getitem_def
      driver_name_def)

lemma named_rows: "iterrows named_standings ! 0 = named_row" "named_row \<in> set (iterrows named_standings)"
  by (simp_all add: iterrows_def named_standings_def named_row_def)

theorem driver_name_by_columns_witness:
  "drivers_loop [] (iterrows named_standings) = Inr [named_driver] \<and>
   named_driver \<in> set [named_driver] \<and>
   named_row ''GivenName'' = Some (PyStr ''Max'') \<and>
   named_row ''FamilyName'' = Some (PyStr ''Verstappen'') \<and>
   named_row ''Abbreviation'' = Some (PyStr ''VER'') \<and>
   row_driver named_row = Inr (Some named_driver) \<and>
   name named_driver = PyStr ''Max Verstappen'' \<and>
   drivers_loop [] (iterrows numbered_standings) = Inr [numbered_driver] \<and>
   numbered_row ''GivenName'' = None \<and> numbered_row ''Driver'' = None \<and>
   numbered_row ''Abbreviation'' =
     Some (PyFloat \<lparr>float_int = Some 44, float_str = ''44.0'', float_bool = True\<rparr>) \<and>
   row_driver numbered_row = Inr (Some numbered_driver) \<and>
   name numbered_driver = PyStr ''44.0''"
proof -
  have g: "named_row ''GivenName'' = Some (PyStr ''Max'')"
    and f: "named_row ''FamilyName'' = Some (PyStr ''Verstappen'')"
    and a: "named_row ''Abbreviation'' = Some (PyStr ''VER'')"
    by (simp_all add: named_row_def named_standings_def)
  have m: "named_driver \<in> set [named_driver]" by simp
  from driver_name_by_columns[OF named_iterrows m]
  obtain s where s: "s \<in> set (iterrows named_standings)"
    and row: "row_driver s = Inr (Some named_driver)"
    and both: "\<forall>given family.
        s ''GivenName'' = Some given \<and> s ''FamilyName'' = Some family \<and>
        \<not> isna given \<and> \<not> isna family \<longrightarrow>
        (\<exists>g f. py_str given = Inr g \<and> py_str family = Inr f \<and>
               name named_driver = PyStr (g @ '' '' @ f))"
    by (elim bexE conjE) (rule that; assumption)
  have skipped: "row_driver (map_of (zip (columns named_standings) (rows named_standings ! 1))) = Inr None"
    by (simp add: named_standings_def row_driver_def getitem_def)
  from s have "s = named_row \<or> s = map_of (zip (columns named_standings) (rows named_standings ! 1))"
    by (simp add: iterrows_def named_standings_def named_row_def)
  with row skipped have s_eq: "s = named_row" by auto
  from both[unfolded s_eq, THEN spec, THEN spec, THEN mp, of "PyStr ''Max''" "PyStr ''Verstappen''"] g f
  have "name named_driver = PyStr ''Max Verstappen''" by simp
  with row[unfolded s_eq] have first: "row_driver named_row = Inr (Some named_driver) \<and>
      name named_driver = PyStr ''Max Verstappen''"
    by (intro conjI)
  have ng: "numbered_row ''GivenName'' = None" and nd: "numbered_row ''Driver'' = None"
    and na: "numbered_row ''Abbreviation'' =
      Some (PyFloat \<lparr>float_int = Some 44, float_str = ''44.0'', float_bool = True\<rparr>)"
    by (simp_all add: numbered_row_def numbered_standings_def)
  have nm: "numbered_driver \<in> set [numbered_driver]" by simp
  from driver_name_by_columns[OF numbered_iterrows nm]
  obtain s' where s': "s' \<in> set (iterrows numbered_standings)"
    and row': "row_driver s' = Inr (Some numbered_driver)"
    and rest: "s' ''GivenName'' = None \<or> s' ''FamilyName'' = None \<longrightarrow>
        (\<forall>v. s' ''Driver'' = Some v \<and> \<not> isna v \<longrightarrow> name numbered_driver = v) \<and>
        (s' ''Driver'' = None \<longrightarrow>
           (\<forall>a. s' ''Abbreviation'' = Some a \<and> \<not> isna a \<longrightarrow>
              (\<exists>t. py_str a = Inr t \<and> name numbered_driver = PyStr t)) \<and>
           (s' ''Abbreviation'' = None \<longrightarrow> name numbered_driver = PyStr ''Unknown''))"
    by (elim bexE conjE) (rule that; assumption)
  from s' have s'_eq: "s' = numbered_row"
    by (simp add: iterrows_def numbered_standings_def numbered_row_def)
  from rest[unfolded s'_eq] ng nd na
  have "\<exists>t. py_str (PyFloat \<lparr>float_int = Some 44, float_str = ''44.0'', float_bool = True\<rparr>) = Inr t \<and>
      name numbered_driver = PyStr t"
    by simp
  then have "name numbered_driver = PyStr ''44.0''" by auto
  with row'[unfolded s'_eq] have second: "row_driver numbered_row = Inr (Some numbered_driver) \<and>
      name numbered_driver = PyStr ''44.0''"
    by (intro conjI)
  show ?thesis
    by (intro conjI named_iterrows m g f a conjunct1[OF first] conjunct2[OF first]
        numbered_iterrows ng nd na conjunct1[OF second] conjunct2[OF second])
qed

lemma nameless_iterrows:
  "drivers_loop [] (iterrows nameless_standings) =
     Inr [\<lparr>name = PyStr ''nan nan'', position = 1, constructor = PyStr ''Red Bull Racing''\<rparr>]"
  by (simp add: iterrows_def nameless_standings_def row_driver_def getitem_def driver_name_def)

lemma nameless_rows: "iterrows nameless_standings = [nameless_row]"
  by (simp add: iterrows_def nameless_standings_def nameless_row_def)

text \<open>
  Read by populated fields, the rule gives the driver identifier to a row whose name
  cells are missing; the code does not go on to the identifier and gives the row the
  name \<open>nan nan\<close>.
\<close>

theorem populated_name_counterexample:
  "drivers_loop [] (iterrows nameless_standings) =
     Inr [\<lparr>name = PyStr ''nan nan'', position = 1, constructor = PyStr ''Red Bull Racing''\<rparr>] \<and>
   iterrows nameless_standings = [nameless_row] \<and>
   \<not> populated nameless_row ''GivenName'' \<and>
   populated nameless_row ''Driver'' \<and>
   spec_driver_name nameless_row = Inr (PyStr ''max_verstappen'') \<and>
   driver_name nameless_row = Inr (PyStr ''nan nan'') \<and>
   driver_name nameless_row \<noteq> spec_driver_name nameless_row"
  using nameless_iterrows nameless_rows
  by (simp add: populated_def spec_driver_name_def driver_name_def nameless_row_def
      nameless_standings_def or_none_def)

section \<open>Tidbit selection\<close>






lemma tidbit_empty_name: "tidbit_loop CIRCUIT_TIDBITS [] default_tidbit = default_tidbit"
  by (simp add: CIRCUIT_TIDBITS_def str_lower_def)


lemma event_tidbit_string:
  "event_tidbit (PyStr en) = Inr (tidbit_loop CIRCUIT_TIDBITS en default_tidbit)"
  by (cases "en = []") (simp_all add: event_tidbit_def tidbit_empty_name)

lemma resolve_event_string:
  assumes "event_field ev ''EventName'' = PyStr en"
  shows "resolve_event ev =
     Inr (tidbit_loop CIRCUIT_TIDBITS en default_tidbit, PyStr en, event_field ev ''Location'')"
  using assms by (cases ev) (simp_all add: resolve_event_def event_tidbit_string)





lemma tidbit_montreal_upper:
  "tidbit_loop CIRCUIT_TIDBITS (''GRAND PRIX DE MONTR'' @ [CHR 0xC9] @ ''AL'') default_tidbit =
     ''The 'Wall of Champions' awaits. A track that rewards aggressive driving.''"
  by (simp add: CIRCUIT_TIDBITS_def str_lower_def lower_char_def char_of_def bit_0)






section \<open>Event name and location\<close>

lemma field_absent_none: "field_absent ev k \<Longrightarrow> event_field ev k = PyNone"
  by (cases ev) (simp_all add: or_none_def)

lemma resolve_event_fields:
  assumes "resolve_event ev = Inr r"
  shows "fst (snd r) = event_field ev ''EventName''" and "snd (snd r) = event_field ev ''Location''"
  using assms by (cases ev; auto simp: resolve_event_def Let_def split: sum.splits)+

lemma resolve_event_no_name:
  assumes "event_field ev ''EventName'' = PyNone"
  shows "resolve_event ev = Inr (default_tidbit, PyNone, event_field ev ''Location'')"
  using assms by (cases ev) (simp_all add: resolve_event_def event_tidbit_def)

lemma generate_prediction_returned:
  assumes "generate_prediction g (Some df) ev = Inr res" and "\<not> df_empty df"
  shows "\<exists>sel r. resolve_event ev = Inr r \<and>
           res = prediction_record sel (fst r) (fst (snd r)) (snd (snd r))"
  using assms by (auto simp: generate_prediction_steps split: sum.splits)

lemma generate_prediction_returns:
  assumes "drivers_loop [] (iterrows df) = Inr drivers"
    and "\<not> df_empty df"
    and "resolve_event ev = Inr r"
  shows "\<exists>sel. select_drivers g drivers = Inr sel \<and>
           generate_prediction g (Some df) ev =
             Inr (prediction_record sel (fst r) (fst (snd r)) (snd (snd r)))"
proof -
  obtain sel where "select_drivers g drivers = Inr sel"
    using select_drivers_returns[of g drivers] by blast
  with assms show ?thesis by (simp add: generate_prediction_steps)
qed

text \<open>
  C7. On a table that is not empty and whose candidate list is built: when the event
  descriptor is absent, or is a dict without the key \<open>EventName\<close>, or an object without
  that attribute, \<open>generate_prediction\<close> returns and \<open>event_name\<close> is \<open>Unknown Event\<close>; when
  the descriptor is absent or lacks \<open>Location\<close>, every returned prediction has the
  location \<open>Unknown Location\<close>.
\<close>

theorem absent_event_fields_default:
  assumes "drivers_loop [] (iterrows df) = Inr drivers"
    and "\<not> df_empty df"
  shows "(field_absent ev ''EventName'' \<longrightarrow>
            (\<exists>res. generate_prediction g (Some df) ev = Inr res \<and>
               map_of res ''event_name'' = Some (Scalar (PyStr ''Unknown Event'')))) \<and>
         (field_absent ev ''Location'' \<longrightarrow>
            (\<forall>res. generate_prediction g (Some df) ev = Inr res \<longrightarrow>
               map_of res ''location'' = Some (Scalar (PyStr ''Unknown Location''))))"
proof (intro conjI impI allI)
  assume "field_absent ev ''EventName''"
  then have r: "resolve_event ev = Inr (default_tidbit, PyNone, event_field ev ''Location'')"
    by (simp add: field_absent_none resolve_event_no_name)
  obtain sel where sel: "select_drivers g drivers = Inr sel"
    using select_drivers_returns[of g drivers] by blast
  let ?res = "prediction_record sel default_tidbit PyNone (event_field ev ''Location'')"
  have "generate_prediction g (Some df) ev = Inr ?res"
    using assms sel r by (simp add: generate_prediction_steps)
  moreover have "map_of ?res ''event_name'' = Some (Scalar (PyStr ''Unknown Event''))"
    by (simp add: prediction_record_def)
  ultimately show "\<exists>res. generate_prediction g (Some df) ev = Inr res \<and>
               map_of res ''event_name'' = Some (Scalar (PyStr ''Unknown Event''))"
    by blast
next
  fix res
  assume a: "field_absent ev ''Location''" and ret: "generate_prediction g (Some df) ev = Inr res"
  from generate_prediction_returned[OF ret assms(2)]
  obtain sel r where r: "resolve_event ev = Inr r"
    and res: "res = prediction_record sel (fst r) (fst (snd r)) (snd (snd r))" by blast
  from a r have "snd (snd r) = PyNone"
    by (simp add: resolve_event_fields field_absent_none)
  with res show "map_of res ''location'' = Some (Scalar (PyStr ''Unknown Location''))"
    by (simp add: prediction_record_def)
qed

theorem absent_event_fields_default_witness:
  "drivers_loop [] (iterrows sample_standings) = Inr sample_drivers \<and>
   \<not> df_empty sample_standings \<and>
   field_absent NoEvent ''EventName'' \<and>
   field_absent (EventObject [''Location'' \<mapsto> PyStr ''Monaco'']) ''EventName'' \<and>
   field_absent (EventDict [''EventName'' \<mapsto> PyStr ''Monaco Grand Prix'']) ''Location'' \<and>
   (\<exists>res. generate_prediction sample_rng (Some sample_standings) NoEvent = Inr res \<and>
      map_of res ''event_name'' = Some (Scalar (PyStr ''Unknown Event''))) \<and>
   (\<exists>res. generate_prediction sample_rng (Some sample_standings)
        (EventObject [''Location'' \<mapsto> PyStr ''Monaco'']) = Inr res \<and>
      map_of res ''event_name'' = Some (Scalar (PyStr ''Unknown Event''))) \<and>
   (\<exists>res. generate_prediction sample_rng (Some sample_standings)
        (EventDict [''EventName'' \<mapsto> PyStr ''Monaco Grand Prix'']) = Inr res \<and>
      map_of res ''location'' = Some (Scalar (PyStr ''Unknown Location'')))"
proof -
  note inst = absent_event_fields_default[OF sample_iterrows sample_not_empty, of _ sample_rng]
  have a1: "field_absent NoEvent ''EventName''" by simp
  have a2: "field_absent (EventObject [''Location'' \<mapsto> PyStr ''Monaco'']) ''EventName''" by simp
  have a3: "field_absent (EventDict [''EventName'' \<mapsto> PyStr ''Monaco Grand Prix'']) ''Location''"
    by simp
  have n3: "event_field (EventDict [''EventName'' \<mapsto> PyStr ''Monaco Grand Prix'']) ''EventName'' =
      PyStr ''Monaco Grand Prix''"
    by (simp add: or_none_def)
  from generate_prediction_returns[OF sample_iterrows sample_not_empty resolve_event_string[OF n3],
      of sample_rng]
  obtain res where r3: "generate_prediction sample_rng (Some sample_standings)
        (EventDict [''EventName'' \<mapsto> PyStr ''Monaco Grand Prix'']) = Inr res"
    by (elim exE conjE) (rule that; assumption)
  have b1: "\<exists>res. generate_prediction sample_rng (Some sample_standings) NoEvent = Inr res \<and>
      map_of res ''event_name'' = Some (Scalar (PyStr ''Unknown Event''))"
    by (rule inst[of NoEvent, THEN conjunct1, THEN mp, OF a1])
  have b2: "\<exists>res. generate_prediction sample_rng (Some sample_standings)
        (EventObject [''Location'' \<mapsto> PyStr ''Monaco'']) = Inr res \<and>
      map_of res ''event_name'' = Some (Scalar (PyStr ''Unknown Event''))"
    by (rule inst[of "EventObject [''Location'' \<mapsto> PyStr ''Monaco'']", THEN conjunct1, THEN mp, OF a2])
  have "map_of res ''location'' = Some (Scalar (PyStr ''Unknown Location''))"
    by (rule inst[of "EventDict [''EventName'' \<mapsto> PyStr ''Monaco Grand Prix'']", THEN conjunct2,
          THEN mp, OF a3, THEN spec, THEN mp, OF r3])
  with r3 have b3: "\<exists>res. generate_prediction sample_rng (Some sample_standings)
        (EventDict [''EventName'' \<mapsto> PyStr ''Monaco Grand Prix'']) = Inr res \<and>
      map_of res ''location'' = Some (Scalar (PyStr ''Unknown Location''))"
    by (intro exI[of _ res] conjI)
  show ?thesis
    by (intro conjI sample_iterrows sample_not_empty a1 a2 a3 b1 b2 b3)
qed

section \<open>Shape of the result\<close>

lemma prediction_record_keys:
  "map fst (prediction_record sel t n l) =
     [''event_name'', ''location'', ''tidbit'', ''podium_favorites'', ''dark_horse'',
      ''potential_surprise'']"
  by (simp add: prediction_record_def)

lemma prediction_record_no_error: "\<not> shows_error (prediction_record sel t n l)"
  by (simp add: shows_error_def dict_get_def prediction_record_def)

lemma error_record_shown: "shows_error error_record" "map fst error_record = [''error'']"
  by (simp_all add: shows_error_def dict_get_def error_record_def)

text \<open>
  C10. A result that \<open>generate_prediction\<close> returns has either the single key \<open>error\<close>,
  when the standings are \<open>None\<close> or empty, or exactly the six keys \<open>event_name\<close>,
  \<open>location\<close>, \<open>tidbit\<close>, \<open>podium_favorites\<close>, \<open>dark_horse\<close>, \<open>potential_surprise\<close>, when they
  are not; the display layer's test \<open>prediction.get("error")\<close> is true exactly for the
  first, which is exactly when the key \<open>error\<close> is present.
\<close>

theorem result_keys:
  assumes "generate_prediction g standings_df ev = Inr res"
  shows "(if standings_df = None \<or> (\<exists>df. standings_df = Some df \<and> df_empty df)
          then map fst res = [''error'']
          else map fst res = [''event_name'', ''location'', ''tidbit'', ''podium_favorites'',
                 ''dark_horse'', ''potential_surprise'']) \<and>
         (shows_error res \<longleftrightarrow> ''error'' \<in> set (map fst res)) \<and>
         (shows_error res \<longleftrightarrow>
            standings_df = None \<or> (\<exists>df. standings_df = Some df \<and> df_empty df))"
proof (cases "standings_df = None \<or> (\<exists>df. standings_df = Some df \<and> df_empty df)")
  case True
  then have "generate_prediction g standings_df ev = Inr error_record"
    by (auto simp: generate_prediction_def)
  with assms have "res = error_record" by simp
  with True error_record_shown show ?thesis by simp
next
  case False
  then obtain df where df: "standings_df = Some df" "\<not> df_empty df" by auto
  from generate_prediction_returned[OF assms[unfolded df(1)] df(2)]
  obtain sel r where "res = prediction_record sel (fst r) (fst (snd r)) (snd (snd r))" by blast
  with False prediction_record_keys prediction_record_no_error show ?thesis by simp
qed

lemma sample_prediction_returns:
  "\<exists>res. generate_prediction sample_rng (Some sample_standings) monaco_event = Inr res"
  using generate_prediction_returns[OF sample_iterrows sample_not_empty monaco_resolves, of sample_rng]
  by blast

theorem result_keys_witness:
  "(\<exists>res. generate_prediction sample_rng (Some sample_standings) monaco_event = Inr res \<and>
      map fst res = [''event_name'', ''location'', ''tidbit'', ''podium_favorites'',
                 ''dark_horse'', ''potential_surprise''] \<and>
      \<not> shows_error res) \<and>
   (\<exists>res. generate_prediction sample_rng None monaco_event = Inr res \<and>
      map fst res = [''error''] \<and> shows_error res)"
proof -
  obtain res where r: "generate_prediction sample_rng (Some sample_standings) monaco_event = Inr res"
    using sample_prediction_returns by blast
  have ne: "\<not> (Some sample_standings = None \<or>
      (\<exists>df. Some sample_standings = Some df \<and> df_empty df))"
    using sample_not_empty by simp
  have a1: "map fst res = [''event_name'', ''location'', ''tidbit'', ''podium_favorites'',
                 ''dark_horse'', ''potential_surprise'']"
    using result_keys[OF r, THEN conjunct1] ne by (simp only: if_False)
  have a2: "\<not> shows_error res"
    using result_keys[OF r, THEN conjunct2, THEN conjunct2] ne by (simp only: simp_thms)
  have e: "generate_prediction sample_rng None monaco_event = Inr error_record"
    by (simp add: generate_prediction_def)
  have b1: "map fst error_record = [''error'']"
    using result_keys[OF e, THEN conjunct1] by simp
  have b2: "shows_error error_record"
    using result_keys[OF e, THEN conjunct2, THEN conjunct2] by simp
  have first: "\<exists>res. generate_prediction sample_rng (Some sample_standings) monaco_event = Inr res \<and>
      map fst res = [''event_name'', ''location'', ''tidbit'', ''podium_favorites'',
                 ''dark_horse'', ''potential_surprise''] \<and>
      \<not> shows_error res"
    by (rule exI[of _ res]) (intro conjI r a1 a2)
  have second: "\<exists>res. generate_prediction sample_rng None monaco_event = Inr res \<and>
      map fst res = [''error''] \<and> shows_error res"
    by (rule exI[of _ error_record]) (intro conjI e b1 b2)
  show ?thesis by (intro conjI first second)
qed

section \<open>Pools and the random source\<close>

lemma sample_podium:
  "map_sum id podium_favorites (select_drivers sample_rng sample_drivers) =
     Inr [sample_drivers ! 0, sample_drivers ! 1, sample_drivers ! 3]"
  by code_simp

lemma constant_podium:
  "map_sum id podium_favorites (select_drivers (\<lambda>i. 0) sample_drivers) =
     Inr [sample_drivers ! 0, sample_drivers ! 3, sample_drivers ! 2]"
  by code_simp

text \<open>
  C9. The three pools that \<open>generate_prediction\<close> computes are the candidates with
  position at most 5, from 4 to 8 and from 9 to 15: they are determined by the table, so
  two runs on the same table have the same pools (or raise the same exception) whatever
  the random source gives. The picks are not determined: two random sources give
  different podium favourites on the same table.
\<close>

theorem pools_independent_of_random_source:
  "map_sum id (\<lambda>sel. (top_contenders sel, midfield_strong sel, midfield_pack sel))
       (prediction_locals g df) =
     map_sum id (\<lambda>drivers. (filter (\<lambda>d. position d \<le> 5) drivers,
                             filter (\<lambda>d. 4 \<le> position d \<and> position d \<le> 8) drivers,
                             filter (\<lambda>d. 9 \<le> position d \<and> position d \<le> 15) drivers))
       (drivers_loop [] (iterrows df)) \<and>
   map_sum id (\<lambda>sel. (top_contenders sel, midfield_strong sel, midfield_pack sel))
       (prediction_locals g df) =
     map_sum id (\<lambda>sel. (top_contenders sel, midfield_strong sel, midfield_pack sel))
       (prediction_locals g' df) \<and>
   (\<exists>a b t. map_sum id podium_favorites (prediction_locals a t) \<noteq>
            map_sum id podium_favorites (prediction_locals b t))"
proof -
  have pools: "map_sum id (\<lambda>sel. (top_contenders sel, midfield_strong sel, midfield_pack sel))
       (prediction_locals h df) =
     map_sum id (\<lambda>drivers. (filter (\<lambda>d. position d \<le> 5) drivers,
                             filter (\<lambda>d. 4 \<le> position d \<and> position d \<le> 8) drivers,
                             filter (\<lambda>d. 9 \<le> position d \<and> position d \<le> 15) drivers))
       (drivers_loop [] (iterrows df))" for h
  proof (cases "drivers_loop [] (iterrows df)")
    case (Inl e)
    then show ?thesis by (simp add: prediction_locals_def)
  next
    case (Inr drivers)
    from select_drivers_returns[of h drivers]
    obtain podium dh ps where "select_drivers h drivers =
       Inr \<lparr>top_contenders = filter (\<lambda>d. position d \<le> 5) drivers,
            podium_favorites = podium,
            midfield_strong = filter (\<lambda>d. 4 \<le> position d \<and> position d \<le> 8) drivers,
            dark_horse = dh,
            midfield_pack = filter (\<lambda>d. 9 \<le> position d \<and> position d \<le> 15) drivers,
            potential_surprise = ps\<rparr>"
      by blast
    with Inr show ?thesis by (simp add: prediction_locals_def)
  qed
  have a: "map_sum id podium_favorites (prediction_locals sample_rng sample_standings) =
      Inr [sample_drivers ! 0, sample_drivers ! 1, sample_drivers ! 3]"
    by (simp add: prediction_locals_def sample_iterrows sample_podium)
  have b: "map_sum id podium_favorites (prediction_locals (\<lambda>i. 0) sample_standings) =
      Inr [sample_drivers ! 0, sample_drivers ! 3, sample_drivers ! 2]"
    by (simp add: prediction_locals_def sample_iterrows constant_podium)
  have "sample_drivers ! 1 \<noteq> sample_drivers ! 3" by (simp add: sample_drivers_def)
  with a b have neq: "map_sum id podium_favorites (prediction_locals sample_rng sample_standings) \<noteq>
            map_sum id podium_favorites (prediction_locals (\<lambda>i. 0) sample_standings)"
    by simp
  have diff: "\<exists>a b t. map_sum id podium_favorites (prediction_locals a t) \<noteq>
            map_sum id podium_favorites (prediction_locals b t)"
    by (rule exI[of _ sample_rng], rule exI[of _ "\<lambda>i. 0"], rule exI[of _ sample_standings])
      (rule neq)
  have same: "map_sum id (\<lambda>sel. (top_contenders sel, midfield_strong sel, midfield_pack sel))
       (prediction_locals g df) =
     map_sum id (\<lambda>sel. (top_contenders sel, midfield_strong sel, midfield_pack sel))
       (prediction_locals g' df)"
    by (simp only: pools)
  show ?thesis
    by (intro conjI pools same diff)
qed

section \<open>Contract of the schedule lookup\<close>

lemma get_next_gp_network_error:
  "get_next_gp (Inl e) lookup now q = (None, Some (network_error e))"
  by (simp add: get_next_gp_def)

lemma get_next_gp_no_upcoming:
  assumes "filter (\<lambda>ev. on_or_after (EventDate ev) now) schedule = []"
  shows "get_next_gp (Inr schedule) lookup now q = (None, Some no_upcoming)"
  using assms by (simp add: get_next_gp_def)

lemma get_next_gp_no_query:
  assumes "filter (\<lambda>ev. on_or_after (EventDate ev) now) schedule = first # others"
    and "q = None \<or> q = Some []"
  shows "get_next_gp (Inr schedule) lookup now q = (Some first, None)"
  using assms by (auto simp: get_next_gp_def)

lemma first_future_is_earliest:
  assumes f: "filter (\<lambda>ev. on_or_after (EventDate ev) now) schedule = first # others"
    and sorted: "sorted_wrt (\<lambda>a b. \<forall>s t. EventDate a = Some s \<and> EventDate b = Some t \<longrightarrow> s \<le> t) schedule"
    and ev: "ev \<in> set schedule" "on_or_after (EventDate ev) now"
    and dates: "EventDate first = Some s" "EventDate ev = Some t"
  shows "s \<le> t"
proof -
  let ?R = "\<lambda>a b. \<forall>s t. EventDate a = Some s \<and> EventDate b = Some t \<longrightarrow> s \<le> t"
  from ev have "ev \<in> set (filter (\<lambda>ev. on_or_after (EventDate ev) now) schedule)" by simp
  with f have "ev = first \<or> ev \<in> set others" by simp
  moreover have "sorted_wrt ?R (first # others)"
    using sorted_wrt_filter[OF sorted, of "\<lambda>ev. on_or_after (EventDate ev) now"] f by simp
  then have "\<forall>x\<in>set others. ?R first x" by simp
  ultimately show ?thesis using dates by auto
qed

lemma get_next_gp_query:
  assumes "filter (\<lambda>ev. on_or_after (EventDate ev) now) schedule \<noteq> []"
    and "n \<noteq> []"
  shows "get_next_gp (Inr schedule) lookup now (Some n) =
     (case lookup schedule n of
        Inl e \<Rightarrow> (None, Some (network_error e))
      | Inr None \<Rightarrow> (None, Some (not_found n))
      | Inr (Some ev) \<Rightarrow>
          if on_or_after (EventDate ev) now then (Some ev, None) else (None, Some (not_found n)))"
  using assms by (simp add: get_next_gp_def split: list.splits)

lemma messages_differ:
  "no_upcoming \<noteq> not_found n" "no_upcoming \<noteq> network_error e" "not_found n \<noteq> network_error e"
  by (simp_all add: no_upcoming_def not_found_def network_error_def)

lemma future_filter_empty:
  "filter (\<lambda>ev. on_or_after (EventDate ev) now) schedule = [] \<longleftrightarrow>
     (\<forall>x\<in>set schedule. \<not> on_or_after (EventDate x) now)"
  by (simp add: filter_empty_conv)

lemma get_next_gp_shape:
  "(\<exists>ev. get_next_gp r lookup now q = (Some ev, None)) \<or>
   (\<exists>msg. get_next_gp r lookup now q = (None, Some msg) \<and> msg \<noteq> [])"
  by (auto simp: get_next_gp_def network_error_def no_upcoming_def not_found_def
      split: sum.splits list.splits option.splits)

lemma get_next_gp_earliest:
  assumes q: "q = None \<or> q = Some []"
    and ex: "\<exists>x\<in>set schedule. on_or_after (EventDate x) now"
    and sorted: "sorted_wrt (\<lambda>a b. \<forall>s t. EventDate a = Some s \<and> EventDate b = Some t \<longrightarrow> s \<le> t) schedule"
  shows "\<exists>ev s. get_next_gp (Inr schedule) lookup now q = (Some ev, None) \<and> ev \<in> set schedule \<and>
           EventDate ev = Some s \<and> now \<le> s \<and>
           (\<forall>x\<in>set schedule. \<forall>t. EventDate x = Some t \<and> now \<le> t \<longrightarrow> s \<le> t)"
proof -
  from ex have "filter (\<lambda>ev. on_or_after (EventDate ev) now) schedule \<noteq> []"
    by (simp add: future_filter_empty)
  then obtain first others
    where f: "filter (\<lambda>ev. on_or_after (EventDate ev) now) schedule = first # others"
    by (cases "filter (\<lambda>ev. on_or_after (EventDate ev) now) schedule") auto
  then have "first \<in> set (filter (\<lambda>ev. on_or_after (EventDate ev) now) schedule)" by simp
  then have mem: "first \<in> set schedule" and fut: "on_or_after (EventDate first) now" by simp_all
  from fut obtain s where s: "EventDate first = Some s" "now \<le> s"
    by (auto simp: on_or_after_def split: option.splits)
  have ret: "get_next_gp (Inr schedule) lookup now q = (Some first, None)"
    using get_next_gp_no_query[OF f q] .
  have least: "\<forall>x\<in>set schedule. \<forall>t. EventDate x = Some t \<and> now \<le> t \<longrightarrow> s \<le> t"
  proof (intro ballI allI impI)
    fix x t
    assume x: "x \<in> set schedule" and t: "EventDate x = Some t \<and> now \<le> t"
    then have "on_or_after (EventDate x) now" by (simp add: on_or_after_def)
    from first_future_is_earliest[OF f sorted x this s(1)] t show "s \<le> t" by blast
  qed
  from ret mem s least show ?thesis by blast
qed

text \<open>
  C8. A failed fetch gives the network-error message, and a schedule with no event on or
  after the current time gives the no-upcoming-races message. With no name query (none,
  or the empty string) the answer is the first row of the schedule whose date is on or
  after the current time; on a schedule in date order, as the provider gives it, that is
  a future event with the earliest date. With a name query the answer is an event exactly
  when a future event exists and the provider's lookup finds an event whose date is on
  or after the current time; when the lookup gives rows of the schedule, that is exactly
  when it finds one that is still in the future. Otherwise the answer is a message: the
  not-found message, or the network-error message when the lookup raised. Every answer
  is either an event or a message that is not empty, and the three messages differ.
\<close>

theorem get_next_gp_contract:
  "get_next_gp (Inl e) lookup now q = (None, Some (network_error e)) \<and>
   ((\<forall>x\<in>set schedule. \<not> on_or_after (EventDate x) now) \<longrightarrow>
      get_next_gp (Inr schedule) lookup now q = (None, Some no_upcoming)) \<and>
   (\<forall>first others.
      filter (\<lambda>ev. on_or_after (EventDate ev) now) schedule = first # others \<and>
      (q = None \<or> q = Some []) \<longrightarrow>
      get_next_gp (Inr schedule) lookup now q = (Some first, None)) \<and>
   ((q = None \<or> q = Some []) \<and> (\<exists>x\<in>set schedule. on_or_after (EventDate x) now) \<and>
    sorted_wrt (\<lambda>a b. \<forall>s t. EventDate a = Some s \<and> EventDate b = Some t \<longrightarrow> s \<le> t) schedule \<longrightarrow>
      (\<exists>ev s. get_next_gp (Inr schedule) lookup now q = (Some ev, None) \<and> ev \<in> set schedule \<and>
         EventDate ev = Some s \<and> now \<le> s \<and>
         (\<forall>x\<in>set schedule. \<forall>t. EventDate x = Some t \<and> now \<le> t \<longrightarrow> s \<le> t))) \<and>
   (\<forall>n. q = Some n \<and> n \<noteq> [] \<longrightarrow>
      (\<forall>ev. get_next_gp (Inr schedule) lookup now q = (Some ev, None) \<longleftrightarrow>
            (\<exists>x\<in>set schedule. on_or_after (EventDate x) now) \<and>
            lookup schedule n = Inr (Some ev) \<and> on_or_after (EventDate ev) now) \<and>
      ((\<forall>ev. lookup schedule n = Inr (Some ev) \<longrightarrow> ev \<in> set schedule) \<longrightarrow>
         (\<forall>ev. get_next_gp (Inr schedule) lookup now q = (Some ev, None) \<longleftrightarrow>
               lookup schedule n = Inr (Some ev) \<and> on_or_after (EventDate ev) now)) \<and>
      ((\<exists>x\<in>set schedule. on_or_after (EventDate x) now) \<and>
       (\<nexists>ev. lookup schedule n = Inr (Some ev) \<and> on_or_after (EventDate ev) now) \<longrightarrow>
         get_next_gp (Inr schedule) lookup now q =
           (None, Some (case lookup schedule n of
                          Inl e' \<Rightarrow> network_error e'
                        | Inr found \<Rightarrow> not_found n)))) \<and>
   ((\<exists>ev. get_next_gp r lookup now q = (Some ev, None)) \<or>
    (\<exists>msg. get_next_gp r lookup now q = (None, Some msg) \<and> msg \<noteq> [])) \<and>
   no_upcoming \<noteq> not_found n' \<and> no_upcoming \<noteq> network_error e \<and>
   not_found n' \<noteq> network_error e"
proof -
  let ?future = "filter (\<lambda>ev. on_or_after (EventDate ev) now) schedule"
  have c1: "get_next_gp (Inl e) lookup now q = (None, Some (network_error e))"
    by (rule get_next_gp_network_error)
  have c2: "(\<forall>x\<in>set schedule. \<not> on_or_after (EventDate x) now) \<longrightarrow>
      get_next_gp (Inr schedule) lookup now q = (None, Some no_upcoming)"
    using get_next_gp_no_upcoming[of now schedule lookup q] by (simp add: future_filter_empty)
  have c3: "\<forall>first others. ?future = first # others \<and> (q = None \<or> q = Some []) \<longrightarrow>
      get_next_gp (Inr schedule) lookup now q = (Some first, None)"
    using get_next_gp_no_query by blast
  have c4: "(q = None \<or> q = Some []) \<and> (\<exists>x\<in>set schedule. on_or_after (EventDate x) now) \<and>
    sorted_wrt (\<lambda>a b. \<forall>s t. EventDate a = Some s \<and> EventDate b = Some t \<longrightarrow> s \<le> t) schedule \<longrightarrow>
      (\<exists>ev s. get_next_gp (Inr schedule) lookup now q = (Some ev, None) \<and> ev \<in> set schedule \<and>
         EventDate ev = Some s \<and> now \<le> s \<and>
         (\<forall>x\<in>set schedule. \<forall>t. EventDate x = Some t \<and> now \<le> t \<longrightarrow> s \<le> t))"
    using get_next_gp_earliest[of q schedule now lookup] by blast
  have c5: "\<forall>n. q = Some n \<and> n \<noteq> [] \<longrightarrow>
      (\<forall>ev. get_next_gp (Inr schedule) lookup now q = (Some ev, None) \<longleftrightarrow>
            (\<exists>x\<in>set schedule. on_or_after (EventDate x) now) \<and>
            lookup schedule n = Inr (Some ev) \<and> on_or_after (EventDate ev) now) \<and>
      ((\<forall>ev. lookup schedule n = Inr (Some ev) \<longrightarrow> ev \<in> set schedule) \<longrightarrow>
         (\<forall>ev. get_next_gp (Inr schedule) lookup now q = (Some ev, None) \<longleftrightarrow>
               lookup schedule n = Inr (Some ev) \<and> on_or_after (EventDate ev) now)) \<and>
      ((\<exists>x\<in>set schedule. on_or_after (EventDate x) now) \<and>
       (\<nexists>ev. lookup schedule n = Inr (Some ev) \<and> on_or_after (EventDate ev) now) \<longrightarrow>
         get_next_gp (Inr schedule) lookup now q =
           (None, Some (case lookup schedule n of
                          Inl e' \<Rightarrow> network_error e'
                        | Inr found \<Rightarrow> not_found n)))"
  proof (intro allI impI)
    fix n
    assume a: "q = Some n \<and> n \<noteq> []"
    show "(\<forall>ev. get_next_gp (Inr schedule) lookup now q = (Some ev, None) \<longleftrightarrow>
            (\<exists>x\<in>set schedule. on_or_after (EventDate x) now) \<and>
            lookup schedule n = Inr (Some ev) \<and> on_or_after (EventDate ev) now) \<and>
      ((\<forall>ev. lookup schedule n = Inr (Some ev) \<longrightarrow> ev \<in> set schedule) \<longrightarrow>
         (\<forall>ev. get_next_gp (Inr schedule) lookup now q = (Some ev, None) \<longleftrightarrow>
               lookup schedule n = Inr (Some ev) \<and> on_or_after (EventDate ev) now)) \<and>
      ((\<exists>x\<in>set schedule. on_or_after (EventDate x) now) \<and>
       (\<nexists>ev. lookup schedule n = Inr (Some ev) \<and> on_or_after (EventDate ev) now) \<longrightarrow>
         get_next_gp (Inr schedule) lookup now q =
           (None, Some (case lookup schedule n of
                          Inl e' \<Rightarrow> network_error e'
                        | Inr found \<Rightarrow> not_found n)))"
    proof (cases "\<exists>x\<in>set schedule. on_or_after (EventDate x) now")
      case False
      then have "get_next_gp (Inr schedule) lookup now q = (None, Some no_upcoming)"
        using c2 by blast
      with False show ?thesis by auto
    next
      case True
      then have ne: "?future \<noteq> []" by (simp add: future_filter_empty)
      from a have q: "get_next_gp (Inr schedule) lookup now q =
        (case lookup schedule n of
           Inl e \<Rightarrow> (None, Some (network_error e))
         | Inr None \<Rightarrow> (None, Some (not_found n))
         | Inr (Some ev) \<Rightarrow>
             if on_or_after (EventDate ev) now then (Some ev, None) else (None, Some (not_found n)))"
        using get_next_gp_query[OF ne, of n lookup] by simp
      show ?thesis
        unfolding q using True by (auto split: sum.splits option.splits)
    qed
  qed
  show ?thesis
    by (intro conjI c1 c2 c3 c4 c5 get_next_gp_shape messages_differ)
qed

lemma sample_schedule_facts:
  "filter (\<lambda>ev. on_or_after (EventDate ev) 5) [early_event, late_event] = [early_event, late_event]"
  "filter (\<lambda>ev. on_or_after (EventDate ev) 15) [early_event, late_event] = [late_event]"
  "exact_lookup [early_event, late_event] ''Abu Dhabi Grand Prix'' = Inr (Some late_event)"
  "exact_lookup [early_event, late_event] ''Monaco Grand Prix'' = Inr (Some early_event)"
  "on_or_after (EventDate late_event) 15"
  "\<not> on_or_after (EventDate early_event) 15"
  "on_or_after (EventDate early_event) 5"
  "sorted_wrt (\<lambda>a b. \<forall>s t. EventDate a = Some s \<and> EventDate b = Some t \<longrightarrow> s \<le> t)
     [early_event, late_event]"
  "EventDate early_event = Some 10"
  by (simp_all add: on_or_after_def early_event_def late_event_def exact_lookup_def)

lemma exact_lookup_member:
  "exact_lookup schedule n = Inr (Some ev) \<Longrightarrow> ev \<in> set schedule"
  by (auto simp: exact_lookup_def find_Some_iff)

theorem get_next_gp_contract_witness:
  "sorted_wrt (\<lambda>a b. \<forall>s t. EventDate a = Some s \<and> EventDate b = Some t \<longrightarrow> s \<le> t)
     [early_event, late_event] \<and>
   (\<exists>ev s. get_next_gp (Inr [early_event, late_event]) exact_lookup 5 None = (Some ev, None) \<and>
      ev \<in> set [early_event, late_event] \<and> EventDate ev = Some s \<and> 5 \<le> s \<and> s \<le> 10) \<and>
   get_next_gp (Inr [early_event, late_event]) exact_lookup 5 None = (Some early_event, None) \<and>
   get_next_gp (Inr [early_event, late_event]) exact_lookup 15 (Some ''Abu Dhabi Grand Prix'') =
     (Some late_event, None) \<and>
   get_next_gp (Inr [early_event, late_event]) exact_lookup 15 (Some ''Monaco Grand Prix'') =
     (None, Some (not_found ''Monaco Grand Prix'')) \<and>
   get_next_gp (Inr [early_event, late_event]) exact_lookup 25 (Some ''Monaco Grand Prix'') =
     (None, Some no_upcoming)"
proof -
  note f = sample_schedule_facts
  have ex5: "\<exists>x\<in>set [early_event, late_event]. on_or_after (EventDate x) 5"
    using f(7) by simp
  have ex15: "\<exists>x\<in>set [early_event, late_event]. on_or_after (EventDate x) 15"
    using f(5) by simp
  have h0: "(None = None \<or> None = Some []) \<and>
      (\<exists>x\<in>set [early_event, late_event]. on_or_after (EventDate x) 5) \<and>
      sorted_wrt (\<lambda>a b. \<forall>s t. EventDate a = Some s \<and> EventDate b = Some t \<longrightarrow> s \<le> t)
        [early_event, late_event]"
    using ex5 f(8) by simp
  from get_next_gp_contract[of _ exact_lookup 5 None "[early_event, late_event]",
      THEN conjunct2, THEN conjunct2, THEN conjunct2, THEN conjunct1, THEN mp, OF h0]
  obtain ev s where e: "get_next_gp (Inr [early_event, late_event]) exact_lookup 5 None = (Some ev, None)"
    and m: "ev \<in> set [early_event, late_event]" and d: "EventDate ev = Some s" and n: "5 \<le> s"
    and least: "\<forall>x\<in>set [early_event, late_event]. \<forall>t. EventDate x = Some t \<and> 5 \<le> t \<longrightarrow> s \<le> t"
    by (elim exE conjE) (rule that; assumption)
  from least f(9) have "s \<le> 10" by simp
  with e m d n have r0: "\<exists>ev s. get_next_gp (Inr [early_event, late_event]) exact_lookup 5 None = (Some ev, None) \<and>
      ev \<in> set [early_event, late_event] \<and> EventDate ev = Some s \<and> 5 \<le> s \<and> s \<le> 10"
    by blast
  have h1: "filter (\<lambda>ev. on_or_after (EventDate ev) 5) [early_event, late_event] =
      early_event # [late_event] \<and> (None = None \<or> None = Some [])"
    using f(1) by simp
  have r1: "get_next_gp (Inr [early_event, late_event]) exact_lookup 5 None = (Some early_event, None)"
    by (rule get_next_gp_contract[of _ exact_lookup 5 None "[early_event, late_event]",
          THEN conjunct2, THEN conjunct2, THEN conjunct1, THEN spec, THEN spec, THEN mp, OF h1])
  have h2: "Some ''Abu Dhabi Grand Prix'' = Some ''Abu Dhabi Grand Prix'' \<and> ''Abu Dhabi Grand Prix'' \<noteq> []"
    by simp
  have m2: "\<forall>ev. exact_lookup [early_event, late_event] ''Abu Dhabi Grand Prix'' = Inr (Some ev) \<longrightarrow>
      ev \<in> set [early_event, late_event]"
    using exact_lookup_member by blast
  have g2: "exact_lookup [early_event, late_event] ''Abu Dhabi Grand Prix'' = Inr (Some late_event) \<and>
      on_or_after (EventDate late_event) 15"
    using f(3,5) by simp
  have r2: "get_next_gp (Inr [early_event, late_event]) exact_lookup 15 (Some ''Abu Dhabi Grand Prix'') =
     (Some late_event, None)"
    by (rule get_next_gp_contract[of _ exact_lookup 15 "Some ''Abu Dhabi Grand Prix''"
          "[early_event, late_event]",
          THEN conjunct2, THEN conjunct2, THEN conjunct2, THEN conjunct2, THEN conjunct1,
          THEN spec, THEN mp, OF h2, THEN conjunct2, THEN conjunct1, THEN mp, OF m2,
          THEN spec, THEN iffD2, OF g2])
  have h3: "Some ''Monaco Grand Prix'' = Some ''Monaco Grand Prix'' \<and> ''Monaco Grand Prix'' \<noteq> []"
    by simp
  have g3: "(\<exists>x\<in>set [early_event, late_event]. on_or_after (EventDate x) 15) \<and>
      (\<nexists>ev. exact_lookup [early_event, late_event] ''Monaco Grand Prix'' = Inr (Some ev) \<and>
      on_or_after (EventDate ev) 15)"
    using ex15 f(4,6) by simp
  have "get_next_gp (Inr [early_event, late_event]) exact_lookup 15 (Some ''Monaco Grand Prix'') =
     (None, Some (case exact_lookup [early_event, late_event] ''Monaco Grand Prix'' of
                          Inl e' \<Rightarrow> network_error e'
                        | Inr found \<Rightarrow> not_found ''Monaco Grand Prix''))"
    by (rule get_next_gp_contract[of _ exact_lookup 15 "Some ''Monaco Grand Prix''"
          "[early_event, late_event]",
          THEN conjunct2, THEN conjunct2, THEN conjunct2, THEN conjunct2, THEN conjunct1,
          THEN spec, THEN mp, OF h3, THEN conjunct2, THEN conjunct2, THEN mp, OF g3])
  then have r3: "get_next_gp (Inr [early_event, late_event]) exact_lookup 15 (Some ''Monaco Grand Prix'') =
     (None, Some (not_found ''Monaco Grand Prix''))"
    by (simp add: f(4))
  have h4: "\<forall>x\<in>set [early_event, late_event]. \<not> on_or_after (EventDate x) 25"
    by (simp add: on_or_after_def early_event_def late_event_def)
  have r4: "get_next_gp (Inr [early_event, late_event]) exact_lookup 25 (Some ''Monaco Grand Prix'') =
     (None, Some no_upcoming)"
    by (rule get_next_gp_contract[of _ exact_lookup 25 "Some ''Monaco Grand Prix''"
          "[early_event, late_event]", THEN conjunct2, THEN conjunct1, THEN mp, OF h4])
  show ?thesis by (intro conjI f(8) r0 r1 r2 r3 r4)
qed

end
